theory Spec2Isabelle
  imports Complex_Main
begin

section \<open>Elastodynamics notebooks: explicit and Newmark time stepping\<close>

text \<open>
  The two dynamics notebooks advance the discretised equation of motion of a clamped
  beam.  Their scalars are Python and numpy double-precision floats.  The vectors and
  the steps of this development compute with exact real numbers instead, so rounding,
  infinities and NaN are outside of them; the load schedule is modelled twice, over the
  reals and over doubles with their rounding.  Where Python raises the model returns an
  error value, and where numpy would store a non-finite value it returns \<open>NonFinite\<close>,
  which marks a value that has left the reals and is not an exception of the notebooks.
\<close>

subsection \<open>Data\<close>

datatype error =
    ZeroDivisionError
  | NonFinite
  | SolverError

type_synonym vec = "real list"

text \<open>A form of UFL with one coefficient argument and one test function, evaluated.\<close>

type_synonym form = "vec \<Rightarrow> vec \<Rightarrow> real"

subsection \<open>Load schedule\<close>

text \<open>
  \<^verbatim>\<open>
  def load_eval(t,t_cutoff):
      if t <= t_cutoff:
          return sigma_max*t/t_cutoff
      else:
          return 0
  \<close>
  The explicit notebook has the same body with \<open>t_cutoff\<close> read from the notebook's
  globals; \<open>sigma_max\<close> is a global in both.  A float division by zero raises.
\<close>

definition load_eval :: "real \<Rightarrow> real \<Rightarrow> real \<Rightarrow> error + real" where
  "load_eval sigma_max t t_cutoff =
     (if t \<le> t_cutoff
      then (if t_cutoff = 0 then Inl ZeroDivisionError
            else Inr (sigma_max * t / t_cutoff))
      else Inr 0)"

text \<open>
  Python evaluates \<^verbatim>\<open>sigma_max*t/t_cutoff\<close> from left to right in double precision:
  the product is rounded to the nearest double, ties to even, and so is the quotient of
  the rounded product by the cutoff.  A finite double is an integer mantissa times a
  power of two; the test \<^verbatim>\<open>t <= t_cutoff\<close> compares the values exactly.  The exponent
  is unbounded here, so overflow to infinity and the reduced precision of subnormal
  numbers are outside of the model; the mantissa keeps 53 bits.
\<close>

datatype double = Double (mantissa: int) (exponent: int)

definition valof :: "double \<Rightarrow> real" where
  "valof d = real_of_int (mantissa d) * 2 powi exponent d"

text \<open>The number of binary digits of a positive integer.\<close>

function bitlen :: "int \<Rightarrow> int" where
  "bitlen n = (if n \<le> 0 then 0 else 1 + bitlen (n div 2))"
  by pat_completeness auto
termination
  by (relation "measure nat") auto

declare bitlen.simps [simp del]

text \<open>
  \<open>round53 p q e\<close> is the double nearest to \<open>p / q \<sqdot> 2\<^sup>e\<close> for \<open>q > 0\<close>: the
  quotient is scaled by the power of two that leaves 53 binary digits before the point,
  and is rounded to the nearest integer, to the even one at a tie.
\<close>

definition round53 :: "int \<Rightarrow> int \<Rightarrow> int \<Rightarrow> double" where
  "round53 p q e =
     (if p = 0 then Double 0 0
      else
        let a = \<bar>p\<bar>;
            k0 = bitlen a - bitlen q - 53;
            k = (if 2 ^ 53 \<le> (a * 2 ^ nat (- k0)) div (q * 2 ^ nat k0) then k0 + 1 else k0);
            P = a * 2 ^ nat (- k);
            Q = q * 2 ^ nat k;
            m = P div Q;
            r = P mod Q;
            m' = (if Q < 2 * r \<or> (2 * r = Q \<and> odd m) then m + 1 else m)
        in Double (sgn p * m') (k + e))"

definition double_mul :: "double \<Rightarrow> double \<Rightarrow> double" where
  "double_mul x y = round53 (mantissa x * mantissa y) 1 (exponent x + exponent y)"

text \<open>The division of doubles, for a divisor other than zero.\<close>

definition double_div :: "double \<Rightarrow> double \<Rightarrow> double" where
  "double_div x y =
     round53 (mantissa x * sgn (mantissa y)) \<bar>mantissa y\<bar> (exponent x - exponent y)"

text \<open>
  \<open>load_eval\<close> as Python computes it.  The \<^verbatim>\<open>else\<close> branch returns the integer \<open>0\<close>,
  which the assignment to \<^verbatim>\<open>traction.value\<close> stores as the double \<open>0.0\<close>.
\<close>

definition load_eval_double :: "double \<Rightarrow> double \<Rightarrow> double \<Rightarrow> error + double" where
  "load_eval_double sigma_max t t_cutoff =
     (if valof t \<le> valof t_cutoff
      then (if valof t_cutoff = 0 then Inl ZeroDivisionError
            else Inr (double_div (double_mul sigma_max t) t_cutoff))
      else Inr (Double 0 0))"

subsection \<open>Vectors\<close>

text \<open>
  The arrays behind \<open>u_sol\<close>, \<open>v_sol\<close> and \<open>a_sol\<close> are lists of reals.  All of
  them belong to the same function space, so they have the same length in the notebooks;
  the list operations below stop at the shorter argument.
\<close>

definition zeros :: "nat \<Rightarrow> vec" where
  "zeros n = replicate n 0"

definition ones :: "nat \<Rightarrow> vec" where
  "ones n = replicate n 1"

text \<open>The coefficient vector of the \<open>i\<close>-th basis function.\<close>

definition unit :: "nat \<Rightarrow> nat \<Rightarrow> vec" where
  "unit n i = map (\<lambda>j. if j = i then 1 else 0) [0..<n]"

text \<open>PETSc's \<open>y.axpy(alpha, x)\<close>: \<open>y\<close> becomes \<open>y + alpha x\<close>.\<close>

definition axpy :: "real \<Rightarrow> vec \<Rightarrow> vec \<Rightarrow> vec" where
  "axpy alpha x y = map2 (\<lambda>yi xi. yi + alpha * xi) y x"

text \<open>\<open>np.multiply\<close>, elementwise.\<close>

definition multiply :: "vec \<Rightarrow> vec \<Rightarrow> vec" where
  "multiply x y = map2 (*) x y"

subsection \<open>The finite-element collaborator\<close>

text \<open>
  Everything that dolfinx, UFL and PETSc compute is a parameter: the value of the
  integrals on coefficient vectors, the clamped nodes found on the mesh, and the
  linear solve of \<open>LinearProblem\<close> with \<open>bcs=[bc]\<close>.  \<open>inner_dx u v\<close> stands for
  \<open>ufl.inner(u, v)*dx\<close>, \<open>dot_ds2 T u\<close> for \<open>ufl.dot(T, u)*ds(2)\<close>,
  \<open>stiffness_linear\<close> and \<open>stiffness_nonlinear\<close> for the two functions of these names
  in the explicit notebook.
\<close>

record fem =
  ndofs :: nat
  inner_dx :: form
  stiffness_linear :: form
  stiffness_nonlinear :: form
  dot_ds2 :: "real \<times> real \<Rightarrow> vec \<Rightarrow> real"
  boundary_clamped_dofs :: "nat list"
  LinearProblem_solve :: "form \<Rightarrow> (vec \<Rightarrow> real) \<Rightarrow> error + vec"

text \<open>The parameter cell of the notebooks.\<close>

record params =
  rho :: real
  eta_m :: real
  eta_k :: real
  use_linear_model :: bool
  use_lumped_mass :: bool
  t_end :: real
  num_steps :: int
  t_cutoff :: real
  sigma_max :: real

text \<open>
  The solution fields; the Newmark notebook calls the last two \<open>vit_sol\<close> and
  \<open>acc_sol\<close>.
\<close>

record state =
  u_sol :: vec
  v_sol :: vec
  a_sol :: vec

subsection \<open>Forms\<close>

text \<open>
  \<^verbatim>\<open>
  def mass(u, v):
      return rho*ufl.inner(u, v)*dx

  def damping(u, v):
      return eta_m*mass(u, v) + eta_k*stiffness_linear(u, v)

  def p_ext(u):
      return ufl.dot(traction,u)*ds(2)

  if use_linear_model:
      stiffness = stiffness_linear
  else:
      stiffness = stiffness_nonlinear

  f_load = p_ext(u_bar) - stiffness(u_sol,u_bar) -  damping(v_sol,u_bar)
  \<close>
\<close>

definition mass :: "fem \<Rightarrow> params \<Rightarrow> form" where
  "mass F P u v = rho P * inner_dx F u v"

definition damping :: "fem \<Rightarrow> params \<Rightarrow> form" where
  "damping F P u v = eta_m P * mass F P u v + eta_k P * stiffness_linear F u v"

definition p_ext :: "fem \<Rightarrow> real \<times> real \<Rightarrow> vec \<Rightarrow> real" where
  "p_ext F traction u = dot_ds2 F traction u"

definition stiffness :: "fem \<Rightarrow> params \<Rightarrow> form" where
  "stiffness F P = (if use_linear_model P then stiffness_linear F else stiffness_nonlinear F)"

definition f_load :: "fem \<Rightarrow> params \<Rightarrow> real \<times> real \<Rightarrow> state \<Rightarrow> vec \<Rightarrow> real" where
  "f_load F P traction s u_bar =
     p_ext F traction u_bar - stiffness F P (u_sol s) u_bar - damping F P (v_sol s) u_bar"

text \<open>
  \<open>assemble_vector\<close> of a linear form: its value at every basis function of the space.
\<close>

definition assemble_vector :: "fem \<Rightarrow> (vec \<Rightarrow> real) \<Rightarrow> vec" where
  "assemble_vector F L = map (\<lambda>i. L (unit (ndofs F) i)) [0..<ndofs F]"

subsection \<open>Lumped mass\<close>

text \<open>
  \<^verbatim>\<open>
  ones = dolfinx.fem.Function(V)
  ones.x.array[:] = 1.
  M_lumped_inv = dolfinx.fem.petsc.assemble_vector(dolfinx.fem.form(ufl.action(mass(u,u_bar), ones)))
  M_lumped_inv.array[:] = 1./M_lumped_inv.array[:]
  \<close>
  The first assignment holds the row sums of the mass matrix.  With a zero row sum numpy
  stores \<open>inf\<close> and only warns; the model has no such value and yields \<open>NonFinite\<close>,
  which marks that the vector has left the reals.  Nothing is raised there.
\<close>

definition M_lumped_rows :: "fem \<Rightarrow> params \<Rightarrow> vec" where
  "M_lumped_rows F P = assemble_vector F (\<lambda>u_bar. mass F P (ones (ndofs F)) u_bar)"

definition M_lumped_inv :: "fem \<Rightarrow> params \<Rightarrow> error + vec" where
  "M_lumped_inv F P =
     (if 0 \<in> set (M_lumped_rows F P) then Inl NonFinite
      else Inr (map (\<lambda>x. 1 / x) (M_lumped_rows F P)))"

subsection \<open>Boundary condition\<close>

text \<open>
  \<^verbatim>\<open>
  u_D = np.array([0,0], dtype=ScalarType)
  bc = dolfinx.fem.dirichletbc(u_D, boundary_clamped_dofs, V)
  \<close>
  The space has two components per node, stored node by node: entry \<open>j\<close> of an array is
  component \<open>j mod 2\<close> of node \<open>j div 2\<close>.  \<open>set_bc(x, [bc])\<close> overwrites the entries of
  the clamped nodes with the components of \<open>u_D\<close>.
\<close>

definition u_D :: vec where
  "u_D = [0, 0]"

definition constrained :: "fem \<Rightarrow> nat \<Rightarrow> bool" where
  "constrained F j = (j div 2 \<in> set (boundary_clamped_dofs F))"

definition set_bc :: "fem \<Rightarrow> vec \<Rightarrow> vec" where
  "set_bc F x = map (\<lambda>j. if constrained F j then u_D ! (j mod 2) else x ! j) [0..<length x]"

text \<open>A vector holds the prescribed value at every constrained entry.\<close>

definition bc_holds :: "fem \<Rightarrow> vec \<Rightarrow> bool" where
  "bc_holds F x = list_all (\<lambda>j. constrained F j \<longrightarrow> x ! j = u_D ! (j mod 2)) [0..<length x]"

text \<open>
  What \<open>LinearProblem(a, L, bcs=[bc]).solve()\<close> is meant to return: a vector of the
  space with the prescribed values at the constrained entries that satisfies row \<open>i\<close> of
  the system at every other entry.
\<close>

definition solves :: "fem \<Rightarrow> form \<Rightarrow> (vec \<Rightarrow> real) \<Rightarrow> vec \<Rightarrow> bool" where
  "solves F a L x =
     (length x = ndofs F \<and>
      list_all (\<lambda>i. if constrained F i then x ! i = u_D ! (i mod 2)
                     else a x (unit (ndofs F) i) = L (unit (ndofs F) i)) [0..<ndofs F])"

subsection \<open>States that respect the clamp\<close>

text \<open>
  The three fields have the size of the space and hold the prescribed value at every
  constrained entry.
\<close>

definition clamped_state :: "fem \<Rightarrow> state \<Rightarrow> bool" where
  "clamped_state F s =
     (length (u_sol s) = ndofs F \<and> length (v_sol s) = ndofs F \<and> length (a_sol s) = ndofs F \<and>
      bc_holds F (u_sol s) \<and> bc_holds F (v_sol s) \<and> bc_holds F (a_sol s))"

subsection \<open>Explicit time stepping\<close>

text \<open>
  The body of the loop of the explicit notebook, without its printing, timing, file output
  and energy bookkeeping:
  \<^verbatim>\<open>
  traction.value = (load_eval((n+1)*dt),0) # along e_x
  if use_lumped_mass:
      af = dolfinx.fem.petsc.assemble_vector(dolfinx.fem.form(f_load))
      a_sol.x.array[:] = np.multiply(M_lumped_inv,af.array[:])
      dolfinx.fem.set_bc(u_sol.vector, [bc])
      dolfinx.fem.set_bc(v_sol.vector, [bc])
      dolfinx.fem.set_bc(a_sol.vector, [bc])
  else:
      a_sol = problem.solve()
  # Corrector step
  v_sol.vector.axpy(dt, a_sol.vector) # what does axpy() do?
  u_sol.vector.axpy(dt, v_sol.vector)
  \<close>
  where \<open>problem = LinearProblem(mass(u,u_bar), f_load, bcs=[bc], ...)\<close>.
\<close>

definition corrector :: "real \<Rightarrow> state \<Rightarrow> state" where
  "corrector dt s =
     (let v = axpy dt (a_sol s) (v_sol s);
          u = axpy dt v (u_sol s)
      in s\<lparr>u_sol := u, v_sol := v\<rparr>)"

definition explicit_step :: "fem \<Rightarrow> params \<Rightarrow> real \<Rightarrow> state \<Rightarrow> nat \<Rightarrow> error + state" where
  "explicit_step F P dt s n =
     (case load_eval (sigma_max P) (real (n + 1) * dt) (t_cutoff P) of
        Inl e \<Rightarrow> Inl e
      | Inr sigma \<Rightarrow>
          (if use_lumped_mass P then
             (case M_lumped_inv F P of
                Inl e \<Rightarrow> Inl e
              | Inr Minv \<Rightarrow>
                  (let af = assemble_vector F (f_load F P (sigma, 0) s);
                       a = multiply Minv af
                   in Inr (corrector dt
                        \<lparr>u_sol = set_bc F (u_sol s), v_sol = set_bc F (v_sol s),
                         a_sol = set_bc F a\<rparr>)))
           else
             (case LinearProblem_solve F (mass F P) (f_load F P (sigma, 0) s) of
                Inl e \<Rightarrow> Inl e
              | Inr a \<Rightarrow> Inr (corrector dt (s\<lparr>a_sol := a\<rparr>)))))"

text \<open>
  \<open>for n in range(num_steps)\<close>.  The loop returns what it has produced when it stops:
  the state after every completed step, labelled with the time \<open>(n+1)*dt\<close> under which
  the notebook stores it, and what ended it, if anything did: an exception, or
  \<open>NonFinite\<close> where the values of the step are no real numbers.
\<close>

fun explicit_loop ::
  "fem \<Rightarrow> params \<Rightarrow> real \<Rightarrow> state \<Rightarrow> nat list \<Rightarrow> (real \<times> state) list \<times> error option" where
  "explicit_loop F P dt s [] = ([], None)"
| "explicit_loop F P dt s (n # ns) =
     (case explicit_step F P dt s n of
        Inl e \<Rightarrow> ([], Some e)
      | Inr s' \<Rightarrow>
          (case explicit_loop F P dt s' ns of
             (tr, r) \<Rightarrow> ((real (n + 1) * dt, s') # tr, r)))"

text \<open>
  \<^verbatim>\<open>
  dt = t_end/num_steps
  u_sol.x.array[:] = 0.
  v_sol.x.array[:] = 0.
  a_sol.x.array[:] = 0.
  \<close>
\<close>

definition time_step :: "params \<Rightarrow> error + real" where
  "time_step P =
     (if num_steps P = 0 then Inl ZeroDivisionError
      else Inr (t_end P / real_of_int (num_steps P)))"

definition initial_state :: "fem \<Rightarrow> state" where
  "initial_state F =
     \<lparr>u_sol = zeros (ndofs F), v_sol = zeros (ndofs F), a_sol = zeros (ndofs F)\<rparr>"

definition explicit_run :: "fem \<Rightarrow> params \<Rightarrow> (real \<times> state) list \<times> error option" where
  "explicit_run F P =
     (case time_step P of
        Inl e \<Rightarrow> ([], Some e)
      | Inr dt \<Rightarrow> explicit_loop F P dt (initial_state F) [0..<nat (num_steps P)])"

text \<open>
  \<open>NonFinite\<close> is no exception of the notebook.  With a zero row sum the lumped branch
  goes on with \<open>inf\<close> and \<open>nan\<close> in its arrays: \<open>assemble_vector\<close>, \<open>np.multiply\<close>,
  \<open>set_bc\<close> and \<open>axpy\<close> store what they compute and raise nothing, so that in this
  branch only \<open>load_eval\<close> can end the loop.  \<open>explicit_loop\<close> follows the values and
  stops where they leave the real numbers; \<open>explicit_stamps\<close> follows the iterations: the
  time stamp \<open>(n+1)*dt\<close> of every iteration that is completed, and the exception that ends
  the loop, if any.  The full-mass branch never reads \<open>M_lumped_inv\<close>, and its
  iterations are those of \<open>explicit_loop\<close>.
\<close>

fun load_stamps :: "params \<Rightarrow> real \<Rightarrow> nat list \<Rightarrow> real list \<times> error option" where
  "load_stamps P dt [] = ([], None)"
| "load_stamps P dt (n # ns) =
     (case load_eval (sigma_max P) (real (n + 1) * dt) (t_cutoff P) of
        Inl e \<Rightarrow> ([], Some e)
      | Inr sigma \<Rightarrow>
          (case load_stamps P dt ns of
             (ts, r) \<Rightarrow> (real (n + 1) * dt # ts, r)))"

definition explicit_stamps :: "fem \<Rightarrow> params \<Rightarrow> real list \<times> error option" where
  "explicit_stamps F P =
     (case time_step P of
        Inl e \<Rightarrow> ([], Some e)
      | Inr dt \<Rightarrow>
          (if use_lumped_mass P then load_stamps P dt [0..<nat (num_steps P)]
           else (case explicit_loop F P dt (initial_state F) [0..<nat (num_steps P)] of
                   (tr, r) \<Rightarrow> (map fst tr, r))))"

subsection \<open>Newmark time stepping\<close>

text \<open>
  Modelled from the spec: the forms \<open>A\<close> and \<open>f_load\<close> and the predictor, traction
  and corrector lines of the Newmark notebook are \<open>XXX\<close> placeholders left to the
  student.  They are filled in from the equations EQ4, EQ5 and EQ6 of the notebook's own
  text, which section 4.2 of the specification repeats:
  \<open>A = M + \<gamma>\<Delta>t C + \<beta>\<Delta>t\<^sup>2 K\<close>, the predictors
  \<open>u + \<Delta>t v + (\<Delta>t\<^sup>2/2)(1 - 2\<beta>) a\<close> and \<open>v + \<Delta>t (1 - \<gamma>) a\<close>, the right-hand side
  \<open>F(t\<^bsub>n+1\<^esub>) - K u_hat - C v_hat\<close>, and the correctors \<open>u_hat + \<beta>\<Delta>t\<^sup>2 a\<close> and
  \<open>v_hat + \<gamma>\<Delta>t a\<close>.  The notebook sets \<open>stiffness = stiffness_linear\<close>.
\<close>

definition A_newmark :: "fem \<Rightarrow> params \<Rightarrow> real \<Rightarrow> real \<Rightarrow> real \<Rightarrow> form" where
  "A_newmark F P gamma beta dt acc v =
     mass F P acc v + gamma * dt * damping F P acc v + beta * dt\<^sup>2 * stiffness_linear F acc v"

definition predictor :: "real \<Rightarrow> real \<Rightarrow> real \<Rightarrow> state \<Rightarrow> state" where
  "predictor gamma beta dt s =
     s\<lparr>u_sol := axpy (dt\<^sup>2 / 2 * (1 - 2 * beta)) (a_sol s) (axpy dt (v_sol s) (u_sol s)),
       v_sol := axpy (dt * (1 - gamma)) (a_sol s) (v_sol s)\<rparr>"

definition f_load_newmark :: "fem \<Rightarrow> params \<Rightarrow> real \<times> real \<Rightarrow> state \<Rightarrow> vec \<Rightarrow> real" where
  "f_load_newmark F P traction s v =
     p_ext F traction v - stiffness_linear F (u_sol s) v - damping F P (v_sol s) v"

definition corrector_newmark :: "real \<Rightarrow> real \<Rightarrow> real \<Rightarrow> state \<Rightarrow> state" where
  "corrector_newmark gamma beta dt s =
     s\<lparr>u_sol := axpy (beta * dt\<^sup>2) (a_sol s) (u_sol s),
       v_sol := axpy (gamma * dt) (a_sol s) (v_sol s)\<rparr>"

definition newmark_step ::
  "fem \<Rightarrow> params \<Rightarrow> real \<Rightarrow> real \<Rightarrow> real \<Rightarrow> state \<Rightarrow> nat \<Rightarrow> error + state" where
  "newmark_step F P gamma beta dt s n =
     (let s_hat = predictor gamma beta dt s in
      case load_eval (sigma_max P) (real (n + 1) * dt) (t_cutoff P) of
        Inl e \<Rightarrow> Inl e
      | Inr sigma \<Rightarrow>
          (case LinearProblem_solve F (A_newmark F P gamma beta dt)
                  (f_load_newmark F P (sigma, 0) s_hat) of
             Inl e \<Rightarrow> Inl e
           | Inr acc \<Rightarrow> Inr (corrector_newmark gamma beta dt (s_hat\<lparr>a_sol := acc\<rparr>))))"

fun newmark_loop ::
  "fem \<Rightarrow> params \<Rightarrow> real \<Rightarrow> real \<Rightarrow> real \<Rightarrow> state \<Rightarrow> nat list
     \<Rightarrow> (real \<times> state) list \<times> error option" where
  "newmark_loop F P gamma beta dt s [] = ([], None)"
| "newmark_loop F P gamma beta dt s (n # ns) =
     (case newmark_step F P gamma beta dt s n of
        Inl e \<Rightarrow> ([], Some e)
      | Inr s' \<Rightarrow>
          (case newmark_loop F P gamma beta dt s' ns of
             (tr, r) \<Rightarrow> ((real (n + 1) * dt, s') # tr, r)))"

definition newmark_run ::
  "fem \<Rightarrow> params \<Rightarrow> real \<Rightarrow> real \<Rightarrow> (real \<times> state) list \<times> error option" where
  "newmark_run F P gamma beta =
     (case time_step P of
        Inl e \<Rightarrow> ([], Some e)
      | Inr dt \<Rightarrow> newmark_loop F P gamma beta dt (initial_state F) [0..<nat (num_steps P)])"

subsection \<open>A two-node bar\<close>

text \<open>
  A small collaborator to run the definitions on: one element between a clamped node
  \<open>0\<close> and a free node \<open>1\<close> that carries the traction, hence four degrees of freedom.
  Its forms are given by matrices; the nonlinear stiffness agrees with the linear one to
  first order at rest.
\<close>

definition dot :: "vec \<Rightarrow> vec \<Rightarrow> real" where
  "dot x y = sum_list (map2 (*) x y)"

definition mat_vec :: "real list list \<Rightarrow> vec \<Rightarrow> vec" where
  "mat_vec A x = map (\<lambda>row. dot row x) A"

definition matrix_form :: "real list list \<Rightarrow> form" where
  "matrix_form A u v = dot v (mat_vec A u)"

text \<open>
  A solver for systems whose unconstrained rows have no coupling off the diagonal.
\<close>

definition diagonal_solve :: "nat \<Rightarrow> nat list \<Rightarrow> form \<Rightarrow> (vec \<Rightarrow> real) \<Rightarrow> error + vec" where
  "diagonal_solve n clamped a L =
     Inr (map (\<lambda>i. if i div 2 \<in> set clamped then u_D ! (i mod 2)
                    else L (unit n i) / a (unit n i) (unit n i)) [0..<n])"

definition bar_stiffness :: "real list list" where
  "bar_stiffness = [[1, 0, -1, 0], [0, 1, 0, -1], [-1, 0, 1, 0], [0, -1, 0, 1]]"

definition bar :: "real list list \<Rightarrow> fem" where
  "bar M =
     \<lparr>ndofs = 4,
      inner_dx = matrix_form M,
      stiffness_linear = matrix_form bar_stiffness,
      stiffness_nonlinear = (\<lambda>u v. (1 + dot u u) * matrix_form bar_stiffness u v),
      dot_ds2 = (\<lambda>(tx, ty) u. tx * u ! 2 + ty * u ! 3),
      boundary_clamped_dofs = [0],
      LinearProblem_solve = diagonal_solve 4 [0]\<rparr>"

text \<open>The consistent mass matrix of the element, and its row-sum lumping.\<close>

definition bar_consistent :: fem where
  "bar_consistent = bar [[2, 0, 1, 0], [0, 2, 0, 1], [1, 0, 2, 0], [0, 1, 0, 2]]"

definition bar_lumped :: fem where
  "bar_lumped = bar [[3, 0, 0, 0], [0, 3, 0, 0], [0, 0, 3, 0], [0, 0, 0, 3]]"

definition bar_params :: "bool \<Rightarrow> bool \<Rightarrow> int \<Rightarrow> params" where
  "bar_params lin lumped N =
     \<lparr>rho = 1, eta_m = 1, eta_k = 1, use_linear_model = lin, use_lumped_mass = lumped,
      t_end = 2, num_steps = N, t_cutoff = 2, sigma_max = 6\<rparr>"

text \<open>The same bar with a mass form that vanishes.\<close>

definition bar_massless :: fem where
  "bar_massless = bar [[0, 0, 0, 0], [0, 0, 0, 0], [0, 0, 0, 0], [0, 0, 0, 0]]"

text \<open>The state of the bar after the first step of the lumped scheme with unit time step.\<close>

definition bar_state1 :: state where
  "bar_state1 = \<lparr>u_sol = [0, 0, 1, 0], v_sol = [0, 0, 1, 0], a_sol = [0, 0, 1, 0]\<rparr>"

text \<open>
  The state of the bar after the first step of the full-mass scheme with unit time step,
  and a state that does not respect the clamp.
\<close>

definition bar_state_full1 :: state where
  "bar_state_full1 = \<lparr>u_sol = [0, 0, 3 / 2, 0], v_sol = [0, 0, 3 / 2, 0], a_sol = [0, 0, 3 / 2, 0]\<rparr>"

definition bar_state_off :: state where
  "bar_state_off = \<lparr>u_sol = [1, 1, 1, 1], v_sol = [1, 1, 1, 1], a_sol = [0, 0, 0, 0]\<rparr>"

text \<open>The parameters of the bar with no load.\<close>

definition bar_unloaded :: "bool \<Rightarrow> bool \<Rightarrow> int \<Rightarrow> params" where
  "bar_unloaded lin lumped N = (bar_params lin lumped N)\<lparr>sigma_max := 0\<rparr>"

text \<open>
  The state of the bar after the first Newmark step with unit time step,
  \<open>\<gamma> = 1/2\<close> and \<open>\<beta> = 1/4\<close>.
\<close>

definition bar_newmark1 :: state where
  "bar_newmark1 = \<lparr>u_sol = [0, 0, 1 / 5, 0], v_sol = [0, 0, 2 / 5, 0], a_sol = [0, 0, 4 / 5, 0]\<rparr>"

section \<open>Auxiliary facts\<close>

subsection \<open>Rounding to the nearest double\<close>

lemma bitlen_nonneg: "0 \<le> bitlen n"
proof (induction n rule: bitlen.induct)
  case (1 n)
  then show ?case by (subst bitlen.simps) auto
qed

lemma bitlen_pos: "0 < n \<Longrightarrow> 0 < bitlen n"
  using bitlen_nonneg [of "n div 2"] by (subst bitlen.simps) simp

lemma bitlen_bounds: "0 < n \<Longrightarrow> 2 ^ nat (bitlen n - 1) \<le> n \<and> n < 2 ^ nat (bitlen n)"
proof (induction n rule: bitlen.induct)
  case (1 n)
  show ?case
  proof (cases "n = 1")
    case True
    have "bitlen 1 = 1" by (simp add: bitlen.simps [of 1] bitlen.simps [of 0])
    with True show ?thesis by simp
  next
    case False
    with "1.prems" have n2: "0 < n div 2" by simp
    from "1.IH" [OF _ n2] "1.prems" have ih:
      "2 ^ nat (bitlen (n div 2) - 1) \<le> n div 2" "n div 2 < 2 ^ nat (bitlen (n div 2))"
      by auto
    have b: "bitlen n = 1 + bitlen (n div 2)" using "1.prems" by (subst bitlen.simps) simp
    have pos: "0 < bitlen (n div 2)" using n2 by (rule bitlen_pos)
    have e1: "nat (bitlen n - 1) = Suc (nat (bitlen (n div 2) - 1))"
      using pos b by simp
    have e2: "nat (bitlen n) = Suc (nat (bitlen (n div 2)))"
      using pos b by simp
    have "2 * 2 ^ nat (bitlen (n div 2) - 1) \<le> 2 * (n div 2)" using ih(1) by simp
    also have "\<dots> \<le> n" by simp
    finally have lo: "2 ^ nat (bitlen n - 1) \<le> n" unfolding e1 by simp
    have "n < 2 * (n div 2) + 2" by simp
    also have "\<dots> \<le> 2 * 2 ^ nat (bitlen (n div 2))" using ih(2) by simp
    finally have hi: "n < 2 ^ nat (bitlen n)" unfolding e2 by simp
    from lo hi show ?thesis by simp
  qed
qed

lemma bitlen_real:
  assumes "0 < n"
  shows "2 powi (bitlen n - 1) \<le> real_of_int n" and "real_of_int n < 2 powi (bitlen n)"
proof -
  from bitlen_bounds [OF assms] have lo: "2 ^ nat (bitlen n - 1) \<le> n" and hi: "n < 2 ^ nat (bitlen n)"
    by simp_all
  have p: "0 < bitlen n" using assms by (rule bitlen_pos)
  have "(2::real) powi (bitlen n - 1) = 2 powi int (nat (bitlen n - 1))" using p by simp
  also have "\<dots> = 2 ^ nat (bitlen n - 1)" by (rule power_int_of_nat)
  also have "\<dots> = real_of_int (2 ^ nat (bitlen n - 1))" by simp
  also have "\<dots> \<le> real_of_int n" using lo by (simp only: of_int_le_iff)
  finally show "2 powi (bitlen n - 1) \<le> real_of_int n" .
  have "real_of_int n < real_of_int (2 ^ nat (bitlen n))" using hi by (simp only: of_int_less_iff)
  also have "\<dots> = 2 ^ nat (bitlen n)" by simp
  also have "\<dots> = 2 powi int (nat (bitlen n))" by (rule power_int_of_nat [symmetric])
  also have "\<dots> = 2 powi (bitlen n)" using p by simp
  finally show "real_of_int n < 2 powi (bitlen n)" .
qed

lemma pow_nat_powi: "0 \<le> k \<Longrightarrow> (2::real) ^ nat k = 2 powi k"
  using power_int_of_nat [of "2::real" "nat k"] by simp

lemma scaled_ratio:
  "real_of_int (a * 2 ^ nat (- k)) / real_of_int (q * 2 ^ nat k)
     = real_of_int a / real_of_int q * 2 powi (- k)"
proof (cases "0 \<le> k")
  case True
  then have "nat (- k) = 0" by simp
  moreover have "(2::real) ^ nat k = 2 powi k" using True by (rule pow_nat_powi)
  ultimately show ?thesis by (simp add: power_int_minus divide_simps)
next
  case False
  then have "nat k = 0" by simp
  moreover have "(2::real) ^ nat (- k) = 2 powi (- k)" using False by (intro pow_nat_powi) simp
  ultimately show ?thesis by simp
qed

lemma div_le_ratio:
  assumes "0 < Q"
  shows "real_of_int (P div Q) \<le> real_of_int P / real_of_int Q"
proof -
  have "P = Q * (P div Q) + P mod Q" by simp
  then have "real_of_int P = real_of_int Q * real_of_int (P div Q) + real_of_int (P mod Q)"
    by (metis of_int_add of_int_mult)
  moreover have "0 \<le> real_of_int (P mod Q)" using assms by simp
  ultimately show ?thesis using assms by (simp add: field_simps)
qed

lemma nearest_half:
  assumes "0 < Q"
  shows "\<bar>real_of_int (if Q < 2 * (P mod Q) \<or> (2 * (P mod Q) = Q \<and> odd (P div Q))
                        then P div Q + 1 else P div Q)
          - real_of_int P / real_of_int Q\<bar> \<le> 1 / 2"
proof -
  define m where "m = P div Q"
  define r where "r = P mod Q"
  have "P = Q * m + r" by (simp add: m_def r_def)
  then have P: "real_of_int P = real_of_int Q * real_of_int m + real_of_int r"
    by (metis of_int_add of_int_mult)
  have r: "0 \<le> r" "r < Q" using assms by (simp_all add: r_def)
  have Q: "0 < real_of_int Q" using assms by simp
  have ratio: "real_of_int P / real_of_int Q = real_of_int m + real_of_int r / real_of_int Q"
    using Q by (simp add: P field_simps)
  have r0: "0 \<le> real_of_int r / real_of_int Q" using r Q by simp
  have r1: "real_of_int r / real_of_int Q < 1" using r Q by simp
  define x where "x = real_of_int r / real_of_int Q"
  show ?thesis
  proof (cases "Q < 2 * r \<or> (2 * r = Q \<and> odd m)")
    case True
    then have "Q \<le> 2 * r" by auto
    then have "real_of_int Q \<le> 2 * real_of_int r" by (metis of_int_le_iff of_int_mult of_int_numeral)
    then have "1 / 2 \<le> x" using Q by (simp add: x_def field_simps)
    moreover have "x < 1" using r1 by (simp add: x_def)
    ultimately have "\<bar>real_of_int (m + 1) - (real_of_int m + x)\<bar> \<le> 1 / 2" by simp
    moreover have "(if Q < 2 * (P mod Q) \<or> (2 * (P mod Q) = Q \<and> odd (P div Q))
                        then P div Q + 1 else P div Q) = m + 1"
      using True by (simp add: m_def r_def)
    ultimately show ?thesis by (simp only: ratio x_def)
  next
    case False
    then have "2 * r \<le> Q" by auto
    then have "2 * real_of_int r \<le> real_of_int Q" by (metis of_int_le_iff of_int_mult of_int_numeral)
    then have "x \<le> 1 / 2" using Q by (simp add: x_def field_simps)
    moreover have "0 \<le> x" using r0 by (simp add: x_def)
    ultimately have "\<bar>real_of_int m - (real_of_int m + x)\<bar> \<le> 1 / 2" by simp
    moreover have "(if Q < 2 * (P mod Q) \<or> (2 * (P mod Q) = Q \<and> odd (P div Q))
                        then P div Q + 1 else P div Q) = m"
      using False by (simp add: m_def r_def)
    ultimately show ?thesis by (simp only: ratio x_def)
  qed
qed

lemma round53_error:
  assumes "p \<noteq> 0" and "0 < q"
  shows "\<bar>valof (round53 p q e) - real_of_int p / real_of_int q * 2 powi e\<bar>
           \<le> \<bar>real_of_int p / real_of_int q * 2 powi e\<bar> / 2 ^ 53"
proof -
  define a where "a = \<bar>p\<bar>"
  define k0 where "k0 = bitlen a - bitlen q - 53"
  define k where "k = (if 2 ^ 53 \<le> (a * 2 ^ nat (- k0)) div (q * 2 ^ nat k0) then k0 + 1 else k0)"
  define P where "P = a * 2 ^ nat (- k)"
  define Q where "Q = q * 2 ^ nat k"
  define m' where "m' = (if Q < 2 * (P mod Q) \<or> (2 * (P mod Q) = Q \<and> odd (P div Q))
                          then P div Q + 1 else P div Q)"
  define s where "s = real_of_int a / real_of_int q * 2 powi (- k)"
  define T where "T = (2::real) powi (k + e)"
  have a: "0 < a" using assms(1) by (simp add: a_def)
  have ra: "0 < real_of_int a" and rq: "0 < real_of_int q" using a assms(2) by simp_all
  have r: "round53 p q e = Double (sgn p * m') (k + e)"
    unfolding round53_def Let_def m'_def P_def Q_def k_def k0_def a_def
    using assms(1) by (simp only: if_False)
  have Qpos: "0 < Q" using assms(2) by (simp add: Q_def)
  have PQ: "real_of_int P / real_of_int Q = s"
    unfolding P_def Q_def s_def by (rule scaled_ratio)
  have half: "\<bar>real_of_int m' - s\<bar> \<le> 1 / 2"
    using nearest_half [OF Qpos, of P] unfolding m'_def PQ .
  have T: "0 < T" by (simp add: T_def zero_less_power_int)
  have ratio0: "2 powi 52 < real_of_int a / real_of_int q * 2 powi (- k0)"
  proof -
    have lo: "2 powi (bitlen a - 1) \<le> real_of_int a" using a by (rule bitlen_real(1))
    have hi: "real_of_int q < 2 powi (bitlen q)" using assms(2) by (rule bitlen_real(2))
    have e: "(2::real) powi (bitlen a - 1) = 2 powi 52 * 2 powi k0 * 2 powi (bitlen q)"
    proof -
      have "bitlen a - 1 = 52 + k0 + bitlen q" by (simp add: k0_def)
      then show ?thesis by (simp add: power_int_add)
    qed
    have pk0: "0 < (2::real) powi k0" by (simp add: zero_less_power_int)
    have "2 powi 52 * 2 powi k0 * real_of_int q < 2 powi 52 * 2 powi k0 * 2 powi (bitlen q)"
      using hi pk0 by (simp add: zero_less_power_int)
    also have "\<dots> \<le> real_of_int a" using lo unfolding e .
    finally have lt: "2 powi 52 * 2 powi k0 < real_of_int a / real_of_int q"
      using rq by (simp add: field_simps)
    have pm: "0 < (2::real) powi (- k0)" by (simp add: zero_less_power_int)
    have "2 powi 52 * 2 powi k0 * 2 powi (- k0) < real_of_int a / real_of_int q * 2 powi (- k0)"
      using lt pm by (rule mult_strict_right_mono)
    moreover have "(2::real) powi k0 * 2 powi (- k0) = 1"
      by (simp add: power_int_minus)
    ultimately show ?thesis by (simp only: mult.assoc mult_1_right)
  qed
  have s52: "2 ^ 52 \<le> s"
  proof (cases "2 ^ 53 \<le> (a * 2 ^ nat (- k0)) div (q * 2 ^ nat k0)")
    case True
    then have k: "k = k0 + 1" by (simp add: k_def)
    have "0 < q * 2 ^ nat k0" using assms(2) by simp
    from div_le_ratio [OF this, of "a * 2 ^ nat (- k0)"] True
    have "real_of_int (2 ^ 53) \<le> real_of_int (a * 2 ^ nat (- k0)) / real_of_int (q * 2 ^ nat k0)"
      by (meson of_int_le_iff order_trans)
    define y where "y = real_of_int a / real_of_int q * 2 powi (- k0)"
    have big: "2 ^ 53 \<le> y"
      using \<open>real_of_int (2 ^ 53) \<le> _\<close> unfolding scaled_ratio y_def by simp
    have km: "- k = (- k0) + (- 1)" unfolding k by simp
    have "(2::real) powi (- k) = 2 powi (- k0) * 2 powi (- 1)"
      unfolding km by (rule power_int_add) simp
    also have "\<dots> = 2 powi (- k0) / 2"
      unfolding power_int_minus1_right by (rule divide_inverse [symmetric])
    finally have h: "(2::real) powi (- k) = 2 powi (- k0) / 2" .
    have "s = real_of_int a / real_of_int q * (2 powi (- k0) / 2)"
      unfolding s_def h ..
    then have "s = y / 2"
      unfolding y_def by (simp only: times_divide_eq_right)
    with big show ?thesis by simp
  next
    case False
    then have "k = k0" by (simp add: k_def)
    with ratio0 show ?thesis by (simp add: s_def)
  qed
  have kk: "(2::real) powi (- k) * 2 powi k = 1" by (simp add: power_int_minus)
  have Tsplit: "T = 2 powi k * 2 powi e" by (simp add: T_def power_int_add)
  have x: "real_of_int p / real_of_int q * 2 powi e = real_of_int (sgn p) * (s * T)"
  proof -
    have "real_of_int p = real_of_int (sgn p) * real_of_int a"
      by (metis a_def mult_sgn_abs of_int_mult)
    then have e1: "real_of_int p / real_of_int q
        = real_of_int (sgn p) * (real_of_int a / real_of_int q)"
      by (simp only: times_divide_eq_right)
    have e2: "real_of_int a / real_of_int q = s * 2 powi k"
      using kk by (simp add: s_def mult.assoc)
    show ?thesis unfolding e1 e2 Tsplit by (simp only: mult.assoc)
  qed
  have v: "valof (round53 p q e) = real_of_int (sgn p) * (real_of_int m' * T)"
    by (simp add: r valof_def T_def)
  have sg: "\<bar>real_of_int (sgn p)\<bar> = 1" using assms(1) by (simp add: sgn_if)
  have "valof (round53 p q e) - real_of_int p / real_of_int q * 2 powi e
      = real_of_int (sgn p) * ((real_of_int m' - s) * T)"
    unfolding v x by (simp add: algebra_simps)
  then have lhs: "\<bar>valof (round53 p q e) - real_of_int p / real_of_int q * 2 powi e\<bar>
      = \<bar>real_of_int m' - s\<bar> * T"
    using T sg by (simp add: abs_mult)
  have spos: "0 < s" using s52 by (rule less_le_trans [rotated]) simp
  have rhs: "\<bar>real_of_int p / real_of_int q * 2 powi e\<bar> = s * T"
    unfolding x using T sg spos by (simp add: abs_mult)
  have "\<bar>real_of_int m' - s\<bar> * T \<le> 1 / 2 * T"
    using half T by (simp add: mult_right_mono)
  also have "\<dots> = 2 ^ 52 * T / 2 ^ 53" by simp
  also have "\<dots> \<le> s * T / 2 ^ 53"
    using s52 T by (simp add: divide_right_mono mult_right_mono)
  finally show ?thesis unfolding lhs rhs .
qed

lemma valof_zero [simp]: "valof (Double 0 e) = 0"
  by (simp add: valof_def)

lemma round53_zero [simp]: "round53 0 q e = Double 0 0"
  by (simp add: round53_def)

lemma double_mul_error:
  "\<bar>valof (double_mul x y) - valof x * valof y\<bar> \<le> \<bar>valof x * valof y\<bar> / 2 ^ 53"
proof (cases "mantissa x * mantissa y = 0")
  case True
  then have z: "valof x * valof y = 0" by (auto simp: valof_def)
  have "double_mul x y = Double 0 0" unfolding double_mul_def True by (rule round53_zero)
  then show ?thesis unfolding z by simp
next
  case False
  have "real_of_int (mantissa x * mantissa y) / real_of_int 1 * 2 powi (exponent x + exponent y)
      = valof x * valof y"
    by (simp add: valof_def power_int_add)
  with round53_error [OF False, of 1 "exponent x + exponent y"] show ?thesis
    by (simp add: double_mul_def)
qed

lemma double_div_error:
  assumes "valof y \<noteq> 0"
  shows "\<bar>valof (double_div x y) - valof x / valof y\<bar> \<le> \<bar>valof x / valof y\<bar> / 2 ^ 53"
proof (cases "mantissa x = 0")
  case True
  then have z: "valof x / valof y = 0" by (simp add: valof_def)
  have "double_div x y = Double 0 0" unfolding double_div_def True by simp
  then show ?thesis unfolding z by simp
next
  case False
  from assms have my: "mantissa y \<noteq> 0" by (auto simp: valof_def)
  then have p: "mantissa x * sgn (mantissa y) \<noteq> 0" and q: "0 < \<bar>mantissa y\<bar>"
    using False by (simp_all add: sgn_if)
  have r: "real_of_int (mantissa x * sgn (mantissa y)) / real_of_int \<bar>mantissa y\<bar>
      = real_of_int (mantissa x) / real_of_int (mantissa y)"
  proof (cases "0 < mantissa y")
    case True
    then show ?thesis by simp
  next
    case False
    with my have "mantissa y < 0" by simp
    then show ?thesis by simp
  qed
  have d: "(2::real) powi (exponent x - exponent y) = 2 powi exponent x / 2 powi exponent y"
    by (simp add: power_int_diff)
  have e: "real_of_int (mantissa x * sgn (mantissa y)) / real_of_int \<bar>mantissa y\<bar>
          * 2 powi (exponent x - exponent y)
      = valof x / valof y"
    unfolding r d by (simp add: valof_def)
  have "\<bar>valof (double_div x y)
          - real_of_int (mantissa x * sgn (mantissa y)) / real_of_int \<bar>mantissa y\<bar>
              * 2 powi (exponent x - exponent y)\<bar>
      \<le> \<bar>real_of_int (mantissa x * sgn (mantissa y)) / real_of_int \<bar>mantissa y\<bar>
              * 2 powi (exponent x - exponent y)\<bar> / 2 ^ 53"
    unfolding double_div_def using p q by (rule round53_error)
  then show ?thesis unfolding e .
qed

lemma two_roundings:
  fixes x y1 y c :: real
  assumes "\<bar>y1 - x\<bar> \<le> \<bar>x\<bar> / 2 ^ 53"
    and "\<bar>y - y1 / c\<bar> \<le> \<bar>y1 / c\<bar> / 2 ^ 53"
    and "0 < c"
  shows "\<bar>y - x / c\<bar> \<le> \<bar>x / c\<bar> * (2 / 2 ^ 53 + 1 / 2 ^ 106)"
proof -
  define u :: real where "u = 1 / 2 ^ 53"
  have u: "0 < u" by (simp add: u_def)
  have uu: "u * u = 1 / 2 ^ 106" by (simp add: u_def)
  have a1: "\<bar>y1 - x\<bar> \<le> u * \<bar>x\<bar>" using assms(1) by (simp add: u_def)
  have a2: "\<bar>y - y1 / c\<bar> \<le> u * (\<bar>y1\<bar> / c)" using assms(2,3) by (simp add: u_def)
  have "\<bar>y1\<bar> \<le> \<bar>x\<bar> + \<bar>y1 - x\<bar>" by simp
  with a1 have y1: "\<bar>y1\<bar> \<le> (1 + u) * \<bar>x\<bar>" by (simp add: algebra_simps)
  have "\<bar>y1\<bar> / c \<le> (1 + u) * \<bar>x\<bar> / c"
    using y1 assms(3) by (simp add: divide_right_mono)
  then have "u * (\<bar>y1\<bar> / c) \<le> u * ((1 + u) * \<bar>x\<bar> / c)"
    using u by (simp only: mult_le_cancel_left_pos)
  with a2 have b2: "\<bar>y - y1 / c\<bar> \<le> u * ((1 + u) * \<bar>x\<bar> / c)" by (rule order_trans)
  have "\<bar>y1 / c - x / c\<bar> = \<bar>y1 - x\<bar> / c"
    using assms(3) by (simp add: diff_divide_distrib [symmetric])
  also have "\<dots> \<le> u * \<bar>x\<bar> / c" using a1 assms(3) by (simp add: divide_right_mono)
  finally have b1: "\<bar>y1 / c - x / c\<bar> \<le> u * \<bar>x\<bar> / c" .
  have "\<bar>y - x / c\<bar> \<le> \<bar>y - y1 / c\<bar> + \<bar>y1 / c - x / c\<bar>" by simp
  also have "\<dots> \<le> u * ((1 + u) * \<bar>x\<bar> / c) + u * \<bar>x\<bar> / c" using b1 b2 by (rule add_mono [rotated])
  also have "\<dots> = \<bar>x\<bar> / c * (2 * u + u * u)"
    by (simp add: algebra_simps add_divide_distrib)
  also have "\<dots> = \<bar>x / c\<bar> * (2 / 2 ^ 53 + 1 / 2 ^ 106)"
    using assms(3) unfolding uu by (simp add: u_def)
  finally show ?thesis .
qed

subsection \<open>Vectors and the boundary condition\<close>

lemma length_axpy [simp]: "length (axpy c x y) = min (length y) (length x)"
  by (simp add: axpy_def)

lemma nth_axpy: "j < length x \<Longrightarrow> j < length y \<Longrightarrow> axpy c x y ! j = y ! j + c * x ! j"
  by (simp add: axpy_def)

lemma length_multiply [simp]: "length (multiply x y) = min (length x) (length y)"
  by (simp add: multiply_def)

lemma nth_multiply: "j < length x \<Longrightarrow> j < length y \<Longrightarrow> multiply x y ! j = x ! j * y ! j"
  by (simp add: multiply_def)

lemma length_set_bc [simp]: "length (set_bc F x) = length x"
  by (simp add: set_bc_def)

lemma u_D_nth [simp]: "u_D ! (j mod 2) = 0"
proof -
  have "j mod 2 = 0 \<or> j mod 2 = 1" by arith
  then show ?thesis by (auto simp: u_D_def)
qed

lemma nth_set_bc:
  "j < length x \<Longrightarrow> set_bc F x ! j = (if constrained F j then 0 else x ! j)"
  by (simp add: set_bc_def)

lemma bc_holds_iff: "bc_holds F x \<longleftrightarrow> (\<forall>j<length x. constrained F j \<longrightarrow> x ! j = 0)"
  by (auto simp: bc_holds_def list_all_iff)

lemma bc_holds_set_bc [simp]: "bc_holds F (set_bc F x)"
  by (simp add: bc_holds_iff nth_set_bc)

lemma set_bc_fixed: "bc_holds F x \<Longrightarrow> set_bc F x = x"
  by (rule nth_equalityI) (auto simp: bc_holds_iff nth_set_bc)

lemma bc_holds_axpy: "bc_holds F x \<Longrightarrow> bc_holds F y \<Longrightarrow> bc_holds F (axpy c x y)"
  by (simp add: bc_holds_iff nth_axpy)

lemma length_zeros [simp]: "length (zeros n) = n"
  by (simp add: zeros_def)

lemma nth_zeros [simp]: "j < n \<Longrightarrow> zeros n ! j = 0"
  by (simp add: zeros_def)

lemma bc_holds_zeros [simp]: "bc_holds F (zeros n)"
  by (simp add: bc_holds_iff)

lemma length_assemble_vector [simp]: "length (assemble_vector F L) = ndofs F"
  by (simp add: assemble_vector_def)

lemma nth_assemble_vector: "i < ndofs F \<Longrightarrow> assemble_vector F L ! i = L (unit (ndofs F) i)"
  by (simp add: assemble_vector_def)

lemma length_M_lumped_rows [simp]: "length (M_lumped_rows F P) = ndofs F"
  by (simp add: M_lumped_rows_def)

lemma M_lumped_inv_Inr:
  "M_lumped_inv F P = Inr Minv \<longleftrightarrow>
     0 \<notin> set (M_lumped_rows F P) \<and> Minv = map (\<lambda>x. 1 / x) (M_lumped_rows F P)"
  by (auto simp: M_lumped_inv_def)

lemma axpy_zeros [simp]: "axpy c (zeros n) (zeros n) = zeros n"
  by (rule nth_equalityI) (simp_all add: nth_axpy)

lemma set_bc_zeros [simp]: "set_bc F (zeros n) = zeros n"
  by (simp add: set_bc_fixed)

subsection \<open>The steps keep the clamp\<close>

lemma clamped_state_initial [simp]: "clamped_state F (initial_state F)"
  by (simp add: clamped_state_def initial_state_def)

lemma clamped_state_corrector:
  "clamped_state F s \<Longrightarrow> clamped_state F (corrector dt s)"
  by (simp add: clamped_state_def corrector_def Let_def bc_holds_axpy)

lemma length_M_lumped_inv: "M_lumped_inv F P = Inr Minv \<Longrightarrow> length Minv = ndofs F"
  by (auto simp: M_lumped_inv_Inr)

lemma explicit_step_lumped:
  assumes "use_lumped_mass P" and "explicit_step F P dt s n = Inr s'"
  shows "\<exists>sigma Minv. load_eval (sigma_max P) (real (n + 1) * dt) (t_cutoff P) = Inr sigma
           \<and> M_lumped_inv F P = Inr Minv
           \<and> s' = corrector dt
                \<lparr>u_sol = set_bc F (u_sol s), v_sol = set_bc F (v_sol s),
                 a_sol = set_bc F (multiply Minv (assemble_vector F (f_load F P (sigma, 0) s)))\<rparr>"
  using assms by (auto simp: explicit_step_def Let_def split: sum.splits)

lemma explicit_step_full:
  assumes "\<not> use_lumped_mass P" and "explicit_step F P dt s n = Inr s'"
  shows "\<exists>sigma a. load_eval (sigma_max P) (real (n + 1) * dt) (t_cutoff P) = Inr sigma
           \<and> LinearProblem_solve F (mass F P) (f_load F P (sigma, 0) s) = Inr a
           \<and> s' = corrector dt (s\<lparr>a_sol := a\<rparr>)"
  using assms by (auto simp: explicit_step_def Let_def split: sum.splits)

lemma explicit_step_clamped:
  assumes solver: "\<forall>L x. LinearProblem_solve F (mass F P) L = Inr x \<longrightarrow> length x = ndofs F \<and> bc_holds F x"
    and inv: "clamped_state F s"
    and step: "explicit_step F P dt s n = Inr s'"
  shows "clamped_state F s'"
proof (cases "use_lumped_mass P")
  case True
  from explicit_step_lumped [OF True step] obtain sigma Minv where
    Minv: "M_lumped_inv F P = Inr Minv" and
    s': "s' = corrector dt
                \<lparr>u_sol = set_bc F (u_sol s), v_sol = set_bc F (v_sol s),
                 a_sol = set_bc F (multiply Minv (assemble_vector F (f_load F P (sigma, 0) s)))\<rparr>"
    by blast
  have "clamped_state F \<lparr>u_sol = set_bc F (u_sol s), v_sol = set_bc F (v_sol s),
                 a_sol = set_bc F (multiply Minv (assemble_vector F (f_load F P (sigma, 0) s)))\<rparr>"
    using inv length_M_lumped_inv [OF Minv] by (simp add: clamped_state_def)
  then show ?thesis unfolding s' by (rule clamped_state_corrector)
next
  case False
  from explicit_step_full [OF False step] obtain sigma a where
    a: "LinearProblem_solve F (mass F P) (f_load F P (sigma, 0) s) = Inr a" and
    s': "s' = corrector dt (s\<lparr>a_sol := a\<rparr>)"
    by blast
  have "clamped_state F (s\<lparr>a_sol := a\<rparr>)"
    using inv solver [rule_format, OF a] by (simp add: clamped_state_def)
  then show ?thesis unfolding s' by (rule clamped_state_corrector)
qed

lemma explicit_loop_clamped:
  assumes solver: "\<forall>L x. LinearProblem_solve F (mass F P) L = Inr x \<longrightarrow> length x = ndofs F \<and> bc_holds F x"
  shows "clamped_state F s \<Longrightarrow> (t, s') \<in> set (fst (explicit_loop F P dt s ns)) \<Longrightarrow> clamped_state F s'"
proof (induction ns arbitrary: s)
  case Nil
  then show ?case by simp
next
  case (Cons n ns)
  show ?case
  proof (cases "explicit_step F P dt s n")
    case (Inl e)
    with Cons.prems show ?thesis by simp
  next
    case (Inr s1)
    have s1: "clamped_state F s1"
      using solver Cons.prems(1) Inr by (rule explicit_step_clamped)
    from Cons.prems(2) Inr have "(t, s') = (real (n + 1) * dt, s1) \<or> (t, s') \<in> set (fst (explicit_loop F P dt s1 ns))"
      by (auto split: prod.splits)
    then show ?thesis using s1 Cons.IH [OF s1] by auto
  qed
qed

lemma clamped_state_predictor:
  "clamped_state F s \<Longrightarrow> clamped_state F (predictor gamma beta dt s)"
  by (simp add: clamped_state_def predictor_def bc_holds_axpy)

lemma clamped_state_corrector_newmark:
  "clamped_state F s \<Longrightarrow> clamped_state F (corrector_newmark gamma beta dt s)"
  by (simp add: clamped_state_def corrector_newmark_def bc_holds_axpy)

lemma newmark_step_Inr:
  assumes "newmark_step F P gamma beta dt s n = Inr s'"
  shows "\<exists>sigma acc. load_eval (sigma_max P) (real (n + 1) * dt) (t_cutoff P) = Inr sigma
           \<and> LinearProblem_solve F (A_newmark F P gamma beta dt)
                (f_load_newmark F P (sigma, 0) (predictor gamma beta dt s)) = Inr acc
           \<and> s' = corrector_newmark gamma beta dt ((predictor gamma beta dt s)\<lparr>a_sol := acc\<rparr>)"
  using assms by (auto simp: newmark_step_def Let_def split: sum.splits)

lemma newmark_step_clamped:
  assumes solver: "\<forall>a L x. LinearProblem_solve F a L = Inr x \<longrightarrow> length x = ndofs F \<and> bc_holds F x"
    and inv: "clamped_state F s"
    and step: "newmark_step F P gamma beta dt s n = Inr s'"
  shows "clamped_state F s'"
proof -
  from newmark_step_Inr [OF step] obtain sigma acc where
    acc: "LinearProblem_solve F (A_newmark F P gamma beta dt)
                (f_load_newmark F P (sigma, 0) (predictor gamma beta dt s)) = Inr acc" and
    s': "s' = corrector_newmark gamma beta dt ((predictor gamma beta dt s)\<lparr>a_sol := acc\<rparr>)"
    by blast
  have "clamped_state F ((predictor gamma beta dt s)\<lparr>a_sol := acc\<rparr>)"
    using clamped_state_predictor [OF inv, of gamma beta dt] solver [rule_format, OF acc]
    by (simp add: clamped_state_def)
  then show ?thesis unfolding s' by (rule clamped_state_corrector_newmark)
qed

lemma newmark_loop_clamped:
  assumes solver: "\<forall>a L x. LinearProblem_solve F a L = Inr x \<longrightarrow> length x = ndofs F \<and> bc_holds F x"
  shows "clamped_state F s \<Longrightarrow> (t, s') \<in> set (fst (newmark_loop F P gamma beta dt s ns))
           \<Longrightarrow> clamped_state F s'"
proof (induction ns arbitrary: s)
  case Nil
  then show ?case by simp
next
  case (Cons n ns)
  show ?case
  proof (cases "newmark_step F P gamma beta dt s n")
    case (Inl e)
    with Cons.prems show ?thesis by simp
  next
    case (Inr s1)
    have s1: "clamped_state F s1"
      using solver Cons.prems(1) Inr by (rule newmark_step_clamped)
    from Cons.prems(2) Inr
    have "(t, s') = (real (n + 1) * dt, s1) \<or> (t, s') \<in> set (fst (newmark_loop F P gamma beta dt s1 ns))"
      by (auto split: prod.splits)
    then show ?thesis using s1 Cons.IH [OF s1] by auto
  qed
qed

lemma explicit_run_clamped:
  assumes solver: "\<forall>L x. LinearProblem_solve F (mass F P) L = Inr x \<longrightarrow> length x = ndofs F \<and> bc_holds F x"
    and "(t, s) \<in> set (fst (explicit_run F P))"
  shows "clamped_state F s"
proof (cases "time_step P")
  case (Inl e)
  with assms(2) show ?thesis by (simp add: explicit_run_def)
next
  case (Inr dt)
  with assms(2) have "(t, s) \<in> set (fst (explicit_loop F P dt (initial_state F) [0..<nat (num_steps P)]))"
    by (simp add: explicit_run_def)
  with explicit_loop_clamped [OF solver clamped_state_initial] show ?thesis by blast
qed

lemma newmark_run_clamped:
  assumes solver: "\<forall>a L x. LinearProblem_solve F a L = Inr x \<longrightarrow> length x = ndofs F \<and> bc_holds F x"
    and "(t, s) \<in> set (fst (newmark_run F P gamma beta))"
  shows "clamped_state F s"
proof (cases "time_step P")
  case (Inl e)
  with assms(2) show ?thesis by (simp add: newmark_run_def)
next
  case (Inr dt)
  with assms(2) have "(t, s) \<in> set (fst (newmark_loop F P gamma beta dt (initial_state F) [0..<nat (num_steps P)]))"
    by (simp add: newmark_run_def)
  with newmark_loop_clamped [OF solver clamped_state_initial] show ?thesis by blast
qed


subsection \<open>Evaluating the two-node bar\<close>

lemma upt2: "[0..<2] = [0, 1]" by (simp add: upt_rec)
lemma upt4: "[0..<4] = [0, 1, 2, 3]" by (simp add: upt_rec)
lemma zeros4: "zeros 4 = [0, 0, 0, 0]" by (simp add: zeros_def eval_nat_numeral)
lemma ones4: "ones 4 = [1, 1, 1, 1]" by (simp add: ones_def eval_nat_numeral)
lemma unit4: "unit 4 0 = [1, 0, 0, 0]" "unit 4 1 = [0, 1, 0, 0]" "unit 4 2 = [0, 0, 1, 0]" "unit 4 3 = [0, 0, 0, 1]" "unit 4 (Suc 0) = [0, 1, 0, 0]"
  by (simp_all add: unit_def upt4)
lemmas bar_defs = bar_consistent_def bar_lumped_def bar_def bar_params_def bar_stiffness_def
  matrix_form_def mat_vec_def dot_def diagonal_solve_def upt2 upt4 zeros4 ones4 unit4
lemmas explicit_defs = explicit_run_def time_step_def initial_state_def explicit_step_def
  load_eval_def M_lumped_inv_def M_lumped_rows_def assemble_vector_def f_load_def
  p_ext_def stiffness_def damping_def mass_def set_bc_def constrained_def u_D_def
  corrector_def axpy_def multiply_def Let_def
lemmas newmark_defs = newmark_run_def time_step_def initial_state_def newmark_step_def
  load_eval_def A_newmark_def f_load_newmark_def predictor_def corrector_newmark_def
  p_ext_def damping_def mass_def u_D_def axpy_def Let_def

lemma diagonal_solve_bc:
  assumes "LinearProblem_solve F = diagonal_solve (ndofs F) (boundary_clamped_dofs F)"
  shows "\<forall>a L x. LinearProblem_solve F a L = Inr x \<longrightarrow> length x = ndofs F \<and> bc_holds F x"
  unfolding assms by (auto simp: diagonal_solve_def bc_holds_iff constrained_def)

lemma bar_solver_bc:
  "\<forall>a L x. LinearProblem_solve (bar M) a L = Inr x \<longrightarrow> length x = ndofs (bar M) \<and> bc_holds (bar M) x"
  by (rule diagonal_solve_bc) (simp add: bar_def)

lemma run_lumped: "explicit_run bar_consistent (bar_params True True 2) =
  ([(1, \<lparr>u_sol = [0, 0, 1, 0], v_sol = [0, 0, 1, 0], a_sol = [0, 0, 1, 0]\<rparr>),
    (2, \<lparr>u_sol = [0, 0, 8 / 3, 0], v_sol = [0, 0, 5 / 3, 0], a_sol = [0, 0, 2 / 3, 0]\<rparr>)], None)"
  by (simp add: bar_defs explicit_defs)

lemma run_full: "explicit_run bar_consistent (bar_params True False 2) =
  ([(1, \<lparr>u_sol = [0, 0, 3 / 2, 0], v_sol = [0, 0, 3 / 2, 0], a_sol = [0, 0, 3 / 2, 0]\<rparr>),
    (2, \<lparr>u_sol = [0, 0, 3, 0], v_sol = [0, 0, 3 / 2, 0], a_sol = [0, 0, 0, 0]\<rparr>)], None)"
  by (simp add: bar_defs explicit_defs)

lemma run_newmark: "newmark_run bar_consistent (bar_params True True 2) (1/2) (1/4) =
  ([(1, \<lparr>u_sol = [0, 0, 1 / 5, 0], v_sol = [0, 0, 2 / 5, 0], a_sol = [0, 0, 4 / 5, 0]\<rparr>),
    (2, \<lparr>u_sol = [0, 0, 74 / 75, 0], v_sol = [0, 0, 88 / 75, 0], a_sol = [0, 0, 56 / 75, 0]\<rparr>)], None)"
  by (simp add: bar_defs newmark_defs power2_eq_square)


subsection \<open>Row sums and the entries of the corrector\<close>

lemma nth_M_lumped_rows:
  "i < ndofs F \<Longrightarrow> M_lumped_rows F P ! i = mass F P (ones (ndofs F)) (unit (ndofs F) i)"
  by (simp add: M_lumped_rows_def nth_assemble_vector)

lemma rows_consistent: "M_lumped_rows bar_consistent (bar_params True True 2) = [3, 3, 3, 3]"
  by (simp add: bar_defs explicit_defs)

lemma rows_massless: "M_lumped_rows bar_massless (bar_params True True 2) = [0, 0, 0, 0]"
  by (simp add: bar_massless_def bar_defs explicit_defs)

lemma length_corrector [simp]:
  "length (v_sol (corrector dt s)) = min (length (v_sol s)) (length (a_sol s))"
  "length (a_sol (corrector dt s)) = length (a_sol s)"
  "length (u_sol (corrector dt s)) = min (length (u_sol s)) (min (length (v_sol s)) (length (a_sol s)))"
  by (simp_all add: corrector_def Let_def)

lemma nth_corrector:
  assumes "i < length (u_sol s)" "i < length (v_sol s)" "i < length (a_sol s)"
  shows "a_sol (corrector dt s) ! i = a_sol s ! i"
    and "v_sol (corrector dt s) ! i = v_sol s ! i + dt * a_sol s ! i"
    and "u_sol (corrector dt s) ! i = u_sol s ! i + dt * v_sol (corrector dt s) ! i"
  using assms by (simp_all add: corrector_def Let_def nth_axpy)

lemma step2_lumped:
  "explicit_step bar_consistent (bar_params True True 2) 1 bar_state1 1
     = Inr \<lparr>u_sol = [0, 0, 8 / 3, 0], v_sol = [0, 0, 5 / 3, 0], a_sol = [0, 0, 2 / 3, 0]\<rparr>"
  by (simp add: bar_state1_def bar_defs explicit_defs)

lemma inv_consistent:
  "M_lumped_inv bar_consistent (bar_params True True 2) = Inr [1 / 3, 1 / 3, 1 / 3, 1 / 3]"
  by (simp add: bar_defs explicit_defs)

subsection \<open>Imposing the condition on a state that respects the clamp\<close>

lemma clamped_state_reimpose:
  "clamped_state F s \<Longrightarrow>
     \<lparr>u_sol = set_bc F (u_sol s), v_sol = set_bc F (v_sol s), a_sol = set_bc F (a_sol s)\<rparr> = s"
  by (simp add: clamped_state_def set_bc_fixed)

lemma run_full_state1: "explicit_run bar_consistent (bar_params True False 2) =
  ([(1, bar_state_full1),
    (2, \<lparr>u_sol = [0, 0, 3, 0], v_sol = [0, 0, 3 / 2, 0], a_sol = [0, 0, 0, 0]\<rparr>)], None)"
  by (simp add: run_full bar_state_full1_def)

lemma step2_full:
  "explicit_step bar_consistent (bar_params True False 2) 1 bar_state_full1 1
     = Inr \<lparr>u_sol = [0, 0, 3, 0], v_sol = [0, 0, 3 / 2, 0], a_sol = [0, 0, 0, 0]\<rparr>"
  by (simp add: bar_state_full1_def bar_defs explicit_defs)

lemma step_off_lumped:
  "explicit_step bar_consistent (bar_params True True 2) 1 bar_state_off 0
     = Inr \<lparr>u_sol = [0, 0, 2, 1], v_sol = [0, 0, 1, 0], a_sol = [0, 0, 0, -1]\<rparr>"
  by (simp add: bar_state_off_def bar_defs explicit_defs)

subsection \<open>The two mass variants on a diagonal mass matrix\<close>

lemma mass_lumped_flag [simp]: "mass F (P\<lparr>use_lumped_mass := b\<rparr>) = mass F P"
  by (intro ext) (simp add: mass_def)

lemma f_load_lumped_flag [simp]: "f_load F (P\<lparr>use_lumped_mass := b\<rparr>) = f_load F P"
  by (intro ext) (simp add: f_load_def stiffness_def damping_def)

lemma M_lumped_inv_lumped_flag [simp]:
  "M_lumped_inv F (P\<lparr>use_lumped_mass := b\<rparr>) = M_lumped_inv F P"
  by (simp add: M_lumped_inv_def M_lumped_rows_def)

lemma solves_iff:
  "solves F a L x \<longleftrightarrow>
     length x = ndofs F \<and>
     (\<forall>i<ndofs F. if constrained F i then x ! i = 0
                   else a x (unit (ndofs F) i) = L (unit (ndofs F) i))"
  by (auto simp: solves_def list_all_iff)

lemma solves_bc: "solves F a L x \<Longrightarrow> length x = ndofs F \<and> bc_holds F x"
  by (auto simp: solves_iff bc_holds_iff split: if_splits)

lemma length_unit [simp]: "length (unit n i) = n"
  by (simp add: unit_def)

lemma length_ones [simp]: "length (ones n) = n"
  by (simp add: ones_def)

lemma nth_ones [simp]: "i < n \<Longrightarrow> ones n ! i = 1"
  by (simp add: ones_def)

lemma explicit_step_variants_agree:
  assumes diag: "\<forall>x i. length x = ndofs F \<and> i < ndofs F \<longrightarrow>
                    inner_dx F x (unit (ndofs F) i) = D i * x ! i"
    and nz: "\<forall>i<ndofs F. rho P * D i \<noteq> 0"
    and solver: "\<forall>L. \<exists>a. LinearProblem_solve F (mass F P) L = Inr a \<and> solves F (mass F P) L a"
    and inv: "clamped_state F s"
  shows "explicit_step F (P\<lparr>use_lumped_mass := True\<rparr>) dt s n
       = explicit_step F (P\<lparr>use_lumped_mass := False\<rparr>) dt s n"
proof (cases "load_eval (sigma_max P) (real (n + 1) * dt) (t_cutoff P)")
  case (Inl e)
  then show ?thesis by (simp add: explicit_step_def)
next
  case (Inr sigma)
  define L where "L = f_load F P (sigma, 0) s"
  have row: "M_lumped_rows F P ! i = rho P * D i" if "i < ndofs F" for i
    using that diag by (simp add: nth_M_lumped_rows mass_def)
  have "0 \<notin> set (M_lumped_rows F P)"
  proof
    assume "0 \<in> set (M_lumped_rows F P)"
    then obtain i where "i < ndofs F" "M_lumped_rows F P ! i = 0"
      by (auto simp: in_set_conv_nth)
    with row nz show False by auto
  qed
  then have Minv: "M_lumped_inv F P = Inr (map (\<lambda>x. 1 / x) (M_lumped_rows F P))"
    by (simp add: M_lumped_inv_def)
  from solver obtain a where
    a: "LinearProblem_solve F (mass F P) L = Inr a" and sol: "solves F (mass F P) L a"
    by blast
  have eq: "set_bc F (multiply (map (\<lambda>x. 1 / x) (M_lumped_rows F P)) (assemble_vector F L)) = a"
  proof (rule nth_equalityI)
    show "length (set_bc F (multiply (map (\<lambda>x. 1 / x) (M_lumped_rows F P)) (assemble_vector F L)))
        = length a"
      using sol by (simp add: solves_iff)
  next
    fix i
    assume "i < length (set_bc F (multiply (map (\<lambda>x. 1 / x) (M_lumped_rows F P)) (assemble_vector F L)))"
    then have i: "i < ndofs F" by simp
    show "set_bc F (multiply (map (\<lambda>x. 1 / x) (M_lumped_rows F P)) (assemble_vector F L)) ! i = a ! i"
    proof (cases "constrained F i")
      case True
      then show ?thesis using i sol by (simp add: nth_set_bc solves_iff)
    next
      case False
      have "mass F P a (unit (ndofs F) i) = L (unit (ndofs F) i)"
        using sol i False by (simp add: solves_iff)
      moreover have "mass F P a (unit (ndofs F) i) = rho P * D i * a ! i"
        using diag sol i by (simp add: mass_def solves_iff)
      ultimately have "a ! i = L (unit (ndofs F) i) / (rho P * D i)"
        using nz i by (simp add: field_simps)
      then show ?thesis
        using i False by (simp add: nth_set_bc nth_multiply nth_assemble_vector row)
    qed
  qed
  have "\<lparr>u_sol = set_bc F (u_sol s), v_sol = set_bc F (v_sol s), a_sol = a\<rparr> = s\<lparr>a_sol := a\<rparr>"
    using inv by (simp add: clamped_state_def set_bc_fixed)
  then show ?thesis
    using Inr Minv a eq by (simp add: explicit_step_def Let_def L_def)
qed

lemma explicit_step_lumped_clamped:
  assumes "use_lumped_mass P" and "clamped_state F s" and "explicit_step F P dt s n = Inr s'"
  shows "clamped_state F s'"
proof -
  from explicit_step_lumped [OF assms(1,3)] obtain sigma Minv where
    Minv: "M_lumped_inv F P = Inr Minv" and
    s': "s' = corrector dt
                \<lparr>u_sol = set_bc F (u_sol s), v_sol = set_bc F (v_sol s),
                 a_sol = set_bc F (multiply Minv (assemble_vector F (f_load F P (sigma, 0) s)))\<rparr>"
    by blast
  have "clamped_state F \<lparr>u_sol = set_bc F (u_sol s), v_sol = set_bc F (v_sol s),
                 a_sol = set_bc F (multiply Minv (assemble_vector F (f_load F P (sigma, 0) s)))\<rparr>"
    using assms(2) length_M_lumped_inv [OF Minv] by (simp add: clamped_state_def)
  then show ?thesis unfolding s' by (rule clamped_state_corrector)
qed

lemma explicit_loop_variants_agree:
  assumes diag: "\<forall>x i. length x = ndofs F \<and> i < ndofs F \<longrightarrow>
                    inner_dx F x (unit (ndofs F) i) = D i * x ! i"
    and nz: "\<forall>i<ndofs F. rho P * D i \<noteq> 0"
    and solver: "\<forall>L. \<exists>a. LinearProblem_solve F (mass F P) L = Inr a \<and> solves F (mass F P) L a"
  shows "clamped_state F s \<Longrightarrow>
         explicit_loop F (P\<lparr>use_lumped_mass := True\<rparr>) dt s ns
       = explicit_loop F (P\<lparr>use_lumped_mass := False\<rparr>) dt s ns"
proof (induction ns arbitrary: s)
  case Nil
  show ?case by simp
next
  case (Cons n ns)
  note eq = explicit_step_variants_agree [OF diag nz solver Cons.prems, of dt n]
  show ?case
  proof (cases "explicit_step F (P\<lparr>use_lumped_mass := True\<rparr>) dt s n")
    case (Inl e)
    moreover from Inl eq have "explicit_step F (P\<lparr>use_lumped_mass := False\<rparr>) dt s n = Inl e"
      by simp
    ultimately show ?thesis by simp
  next
    case (Inr s1)
    have "clamped_state F s1"
      using explicit_step_lumped_clamped [OF _ Cons.prems Inr] by simp
    note ih = Cons.IH [OF this]
    from Inr eq have "explicit_step F (P\<lparr>use_lumped_mass := False\<rparr>) dt s n = Inr s1"
      by simp
    with Inr ih show ?thesis by simp
  qed
qed

lemma vec4: "length (x::real list) = 4 \<Longrightarrow> \<exists>a b c d. x = [a, b, c, d]"
  by (auto simp: eval_nat_numeral length_Suc_conv)

lemma lt4: "(i::nat) < 4 \<Longrightarrow> i = 0 \<or> i = 1 \<or> i = 2 \<or> i = 3"
  by arith

lemma bar_lumped_diagonal:
  "\<forall>x i. length x = ndofs bar_lumped \<and> i < ndofs bar_lumped \<longrightarrow>
     inner_dx bar_lumped x (unit (ndofs bar_lumped) i) = 3 * x ! i"
proof (intro allI impI)
  fix x :: "real list" and i :: nat
  assume "length x = ndofs bar_lumped \<and> i < ndofs bar_lumped"
  then have x: "length x = 4" and i: "i < 4" by (simp_all add: bar_lumped_def bar_def)
  from vec4 [OF x] obtain a b c d where "x = [a, b, c, d]" by blast
  with lt4 [OF i] show "inner_dx bar_lumped x (unit (ndofs bar_lumped) i) = 3 * x ! i"
    by (auto simp: bar_defs)
qed

lemma bar_lumped_solver:
  "\<forall>L. \<exists>a. LinearProblem_solve bar_lumped (mass bar_lumped (bar_params lin b N)) L = Inr a
        \<and> solves bar_lumped (mass bar_lumped (bar_params lin b N)) L a"
  by (simp add: solves_def constrained_def mass_def u_D_def bar_defs)

lemma run_lumped_diag: "explicit_run bar_lumped (bar_params True True 2) =
  ([(1, \<lparr>u_sol = [0, 0, 1, 0], v_sol = [0, 0, 1, 0], a_sol = [0, 0, 1, 0]\<rparr>),
    (2, \<lparr>u_sol = [0, 0, 7 / 3, 0], v_sol = [0, 0, 4 / 3, 0], a_sol = [0, 0, 1 / 3, 0]\<rparr>)], None)"
  by (simp add: bar_defs explicit_defs)

lemma bar_params_flag: "(bar_params lin b N)\<lparr>use_lumped_mass := c\<rparr> = bar_params lin c N"
  by (simp add: bar_params_def)

lemma step_off_full:
  "explicit_step bar_consistent (bar_params True False 2) 1 bar_state_off 0
     = Inr \<lparr>u_sol = [2, 2, 2, 1 / 2], v_sol = [1, 1, 1, - 1 / 2], a_sol = [0, 0, 0, - 3 / 2]\<rparr>"
  by (simp add: bar_state_off_def bar_defs explicit_defs)

subsection \<open>The system at rest and loops that complete\<close>

lemma stamp_pos: "0 < dt \<Longrightarrow> 0 < real (n + 1) * dt"
  by simp

lemma load_eval_zero:
  "load_eval 0 t t_c = Inr sigma \<Longrightarrow> sigma = 0"
  by (auto simp: load_eval_def split: if_splits)

lemma assemble_vector_zero: "assemble_vector F (\<lambda>z. 0) = zeros (ndofs F)"
  by (rule nth_equalityI) (simp_all add: nth_assemble_vector)

lemma multiply_zeros: "length x = n \<Longrightarrow> multiply x (zeros n) = zeros n"
  by (rule nth_equalityI) (simp_all add: nth_multiply)

lemma corrector_initial: "corrector dt (initial_state F) = initial_state F"
  by (simp add: corrector_def initial_state_def Let_def)

lemma f_load_at_rest:
  assumes "\<forall>z. stiffness F P (zeros (ndofs F)) z = 0"
    and "\<forall>z. inner_dx F (zeros (ndofs F)) z = 0"
    and "\<forall>z. stiffness_linear F (zeros (ndofs F)) z = 0"
    and "\<forall>z. dot_ds2 F (0, 0) z = 0"
  shows "f_load F P (0, 0) (initial_state F) = (\<lambda>z. 0)"
  using assms by (intro ext) (simp add: f_load_def p_ext_def damping_def mass_def initial_state_def)

lemma explicit_step_at_rest:
  assumes "sigma_max P = 0"
    and "\<forall>z. stiffness F P (zeros (ndofs F)) z = 0"
    and "\<forall>z. inner_dx F (zeros (ndofs F)) z = 0"
    and "\<forall>z. stiffness_linear F (zeros (ndofs F)) z = 0"
    and "\<forall>z. dot_ds2 F (0, 0) z = 0"
    and "\<not> use_lumped_mass P \<longrightarrow>
           LinearProblem_solve F (mass F P) (\<lambda>z. 0) = Inr (zeros (ndofs F))"
  shows "explicit_step F P dt (initial_state F) n = Inr s' \<Longrightarrow> s' = initial_state F"
    and "t_cutoff P \<noteq> 0 \<or> 0 < dt \<Longrightarrow>
           (use_lumped_mass P \<longrightarrow> 0 \<notin> set (M_lumped_rows F P)) \<Longrightarrow>
           explicit_step F P dt (initial_state F) n = Inr (initial_state F)"
proof -
  note fl = f_load_at_rest [OF assms(2-5)]
  have reimposed: "\<lparr>u_sol = set_bc F (u_sol (initial_state F)),
        v_sol = set_bc F (v_sol (initial_state F)), a_sol = zeros (ndofs F)\<rparr> = initial_state F"
    by (simp add: initial_state_def)
  have solved: "(initial_state F)\<lparr>a_sol := zeros (ndofs F)\<rparr> = initial_state F"
    by (simp add: initial_state_def)
  show "s' = initial_state F" if step: "explicit_step F P dt (initial_state F) n = Inr s'"
  proof (cases "use_lumped_mass P")
    case True
    from explicit_step_lumped [OF True step] obtain sigma Minv where
      sigma: "load_eval (sigma_max P) (real (n + 1) * dt) (t_cutoff P) = Inr sigma" and
      Minv: "M_lumped_inv F P = Inr Minv" and
      s': "s' = corrector dt
                \<lparr>u_sol = set_bc F (u_sol (initial_state F)),
                 v_sol = set_bc F (v_sol (initial_state F)),
                 a_sol = set_bc F (multiply Minv
                   (assemble_vector F (f_load F P (sigma, 0) (initial_state F))))\<rparr>"
      by blast
    have "sigma = 0" using sigma assms(1) by (simp add: load_eval_zero)
    then show ?thesis
      using s' length_M_lumped_inv [OF Minv]
      by (simp add: fl assemble_vector_zero multiply_zeros reimposed corrector_initial)
  next
    case False
    from explicit_step_full [OF False step] obtain sigma a where
      sigma: "load_eval (sigma_max P) (real (n + 1) * dt) (t_cutoff P) = Inr sigma" and
      a: "LinearProblem_solve F (mass F P) (f_load F P (sigma, 0) (initial_state F)) = Inr a" and
      s': "s' = corrector dt ((initial_state F)\<lparr>a_sol := a\<rparr>)"
      by blast
    have "sigma = 0" using sigma assms(1) by (simp add: load_eval_zero)
    with a assms(6) False have "a = zeros (ndofs F)" by (simp add: fl)
    then show ?thesis using s' by (simp add: solved corrector_initial)
  qed
  show "explicit_step F P dt (initial_state F) n = Inr (initial_state F)"
    if tc: "t_cutoff P \<noteq> 0 \<or> 0 < dt"
      and rows: "use_lumped_mass P \<longrightarrow> 0 \<notin> set (M_lumped_rows F P)"
  proof -
    have le: "load_eval (sigma_max P) (real (n + 1) * dt) (t_cutoff P) = Inr 0"
    proof (cases "t_cutoff P = 0")
      case False
      then show ?thesis using assms(1) by (simp add: load_eval_def)
    next
      case True
      with tc have "0 < dt" by simp
      then have "0 < real (n + 1) * dt" by (rule stamp_pos)
      then have "\<not> real (n + 1) * dt \<le> t_cutoff P" unfolding True by (simp only: not_le)
      then show ?thesis unfolding load_eval_def by (simp only: if_False)
    qed
    show ?thesis
    proof (cases "use_lumped_mass P")
      case True
      with rows have "M_lumped_inv F P = Inr (map (\<lambda>x. 1 / x) (M_lumped_rows F P))"
        by (simp add: M_lumped_inv_def)
      then show ?thesis
        using True le
        by (simp add: explicit_step_def Let_def fl assemble_vector_zero multiply_zeros
            reimposed corrector_initial)
    next
      case False
      then show ?thesis
        using le assms(6)
        by (simp add: explicit_step_def fl solved corrector_initial)
    qed
  qed
qed

lemma explicit_loop_trace_at_rest:
  assumes "\<And>n s'. explicit_step F P dt s n = Inr s' \<Longrightarrow> s' = s"
  shows "(t, s') \<in> set (fst (explicit_loop F P dt s ns)) \<Longrightarrow> s' = s"
proof (induction ns)
  case Nil
  then show ?case by simp
next
  case (Cons n ns)
  show ?case
  proof (cases "explicit_step F P dt s n")
    case (Inl e)
    with Cons.prems show ?thesis by simp
  next
    case (Inr s1)
    with assms have "s1 = s" by blast
    with Cons Inr show ?thesis by (auto split: prod.splits)
  qed
qed


lemma explicit_loop_complete_fixed:
  assumes "\<And>n. explicit_step F P dt s n = Inr s"
  shows "snd (explicit_loop F P dt s ns) = None
       \<and> length (fst (explicit_loop F P dt s ns)) = length ns"
proof (induction ns)
  case Nil
  show ?case by simp
next
  case (Cons n ns)
  obtain tr r where tr: "explicit_loop F P dt s ns = (tr, r)" by force
  with Cons assms [of n] show ?case by simp
qed

lemma dot_replicate_zero: "dot z (replicate n 0) = 0"
proof (induction n arbitrary: z)
  case 0
  show ?case by (simp add: dot_def)
next
  case (Suc n)
  show ?case
  proof (cases z)
    case Nil
    then show ?thesis by (simp add: dot_def)
  next
    case (Cons a z')
    with Suc [of z'] show ?thesis by (simp add: dot_def)
  qed
qed

lemma dot_zeros4: "dot z [0, 0, 0, 0] = 0"
  using dot_replicate_zero [of z 4] by (simp add: eval_nat_numeral)

lemma bar_at_rest:
  "\<forall>z. stiffness (bar M) (bar_unloaded lin lumped N) (zeros (ndofs (bar M))) z = 0"
  "\<forall>z. stiffness_linear (bar M) (zeros (ndofs (bar M))) z = 0"
  "\<forall>z. inner_dx (bar M) (zeros (ndofs (bar M))) z = 0"
  "\<forall>z. dot_ds2 (bar M) (0, 0) z = 0"
  by (simp_all add: bar_def stiffness_def matrix_form_def mat_vec_def bar_stiffness_def zeros4
      dot_zeros4 map_replicate_const dot_replicate_zero)

lemma bar_unloaded_fields [simp]:
  "sigma_max (bar_unloaded lin lumped N) = 0"
  "use_lumped_mass (bar_unloaded lin lumped N) = lumped"
  "num_steps (bar_unloaded lin lumped N) = N"
  "t_cutoff (bar_unloaded lin lumped N) = 2"
  by (simp_all add: bar_unloaded_def bar_params_def)

lemma bar_solves_zero:
  "LinearProblem_solve (bar M) (mass (bar M) P) (\<lambda>z. 0) = Inr (zeros (ndofs (bar M)))"
  by (simp add: bar_def diagonal_solve_def upt4 zeros4 u_D_def)

lemma rows_unloaded:
  "M_lumped_rows bar_consistent (bar_unloaded False True 2) = [3, 3, 3, 3]"
  by (simp add: bar_unloaded_def bar_defs explicit_defs)



subsection \<open>Linearity of matrix forms\<close>

lemma dot_axpy:
  "length x = length y \<Longrightarrow> dot r (axpy c x y) = dot r y + c * dot r x"
proof (induction x y arbitrary: r rule: list_induct2)
  case Nil
  show ?case by (simp add: dot_def axpy_def)
next
  case (Cons a x b y)
  show ?case
  proof (cases r)
    case Nil
    then show ?thesis by (simp add: dot_def)
  next
    case (Cons r0 r')
    with Cons.IH [of r'] show ?thesis
      by (simp add: dot_def axpy_def algebra_simps)
  qed
qed

lemma mat_vec_axpy:
  "length x = length y \<Longrightarrow> mat_vec A (axpy c x y) = axpy c (mat_vec A x) (mat_vec A y)"
  by (rule nth_equalityI) (simp_all add: mat_vec_def nth_axpy dot_axpy)

lemma matrix_form_axpy:
  "length x = length y \<Longrightarrow>
     matrix_form A (axpy c x y) z = matrix_form A y z + c * matrix_form A x z"
proof -
  assume l: "length x = length y"
  have "length (mat_vec A x) = length (mat_vec A y)" by (simp add: mat_vec_def)
  from dot_axpy [OF this, of z c] show ?thesis
    by (simp add: matrix_form_def mat_vec_axpy [OF l])
qed

lemma damping_axpy:
  assumes "stiffness_linear F (axpy c x y) z = stiffness_linear F y z + c * stiffness_linear F x z"
    and "inner_dx F (axpy c x y) z = inner_dx F y z + c * inner_dx F x z"
  shows "damping F P (axpy c x y) z = damping F P y z + c * damping F P x z"
  using assms by (simp add: damping_def mass_def algebra_simps)

lemma newmark_step2:
  "newmark_step bar_consistent (bar_params True True 2) (1/2) (1/4) 1 bar_newmark1 1
     = Inr \<lparr>u_sol = [0, 0, 74 / 75, 0], v_sol = [0, 0, 88 / 75, 0], a_sol = [0, 0, 56 / 75, 0]\<rparr>"
  by (simp add: bar_newmark1_def bar_defs newmark_defs power2_eq_square)

lemma newmark_effective2:
  "A_newmark bar_consistent (bar_params True True 2) (1/2) (1/4) 1 [0, 0, 56 / 75, 0] [0, 0, 1, 0]
     = f_load_newmark bar_consistent (bar_params True True 2) (6, 0)
         (predictor (1/2) (1/4) 1 bar_newmark1) [0, 0, 1, 0]"
  by (simp add: bar_newmark1_def bar_defs newmark_defs power2_eq_square)

lemma solve_off_full:
  "LinearProblem_solve bar_consistent (mass bar_consistent (bar_params True False 2))
     (f_load bar_consistent (bar_params True False 2) (3, 0) bar_state_off) = Inr [0, 0, 0, - 3 / 2]"
  by (simp add: bar_state_off_def bar_defs explicit_defs)



lemma explicit_step_lumped_returns:
  assumes "use_lumped_mass P" and "0 \<notin> set (M_lumped_rows F P)"
  shows "(explicit_step F P dt s n = Inl e
            \<longleftrightarrow> load_eval (sigma_max P) (real (n + 1) * dt) (t_cutoff P) = Inl e)
       \<and> ((\<exists>s'. explicit_step F P dt s n = Inr s')
            \<longleftrightarrow> (\<exists>sigma. load_eval (sigma_max P) (real (n + 1) * dt) (t_cutoff P) = Inr sigma))"
proof -
  from assms(2) have "M_lumped_inv F P = Inr (map (\<lambda>x. 1 / x) (M_lumped_rows F P))"
    by (simp add: M_lumped_inv_def)
  with assms(1) show ?thesis
    by (cases "load_eval (sigma_max P) (real (n + 1) * dt) (t_cutoff P)")
       (simp_all add: explicit_step_def Let_def)
qed

lemma load_stamps_explicit_loop:
  assumes "use_lumped_mass P" and "0 \<notin> set (M_lumped_rows F P)"
  shows "load_stamps P dt ns
       = (map fst (fst (explicit_loop F P dt s ns)), snd (explicit_loop F P dt s ns))"
proof (induction ns arbitrary: s)
  case Nil
  show ?case by simp
next
  case (Cons n ns)
  note r = explicit_step_lumped_returns [OF assms, of dt s n]
  show ?case
  proof (cases "load_eval (sigma_max P) (real (n + 1) * dt) (t_cutoff P)")
    case (Inl e)
    with r have "explicit_step F P dt s n = Inl e" by blast
    with Inl show ?thesis by simp
  next
    case (Inr sigma)
    with r obtain s1 where s1: "explicit_step F P dt s n = Inr s1" by blast
    obtain tr q where tr: "explicit_loop F P dt s1 ns = (tr, q)" by force
    with Cons [of s1] Inr s1 show ?thesis by simp
  qed
qed

lemma explicit_stamps_run:
  assumes "use_lumped_mass P \<longrightarrow> 0 \<notin> set (M_lumped_rows F P)"
  shows "explicit_stamps F P = (map fst (fst (explicit_run F P)), snd (explicit_run F P))"
proof (cases "time_step P")
  case (Inl e)
  then show ?thesis by (simp add: explicit_stamps_def explicit_run_def)
next
  case (Inr dt)
  show ?thesis
  proof (cases "use_lumped_mass P")
    case True
    with assms have "0 \<notin> set (M_lumped_rows F P)" by blast
    from load_stamps_explicit_loop [OF True this] Inr True show ?thesis
      by (simp add: explicit_stamps_def explicit_run_def)
  next
    case False
    with Inr show ?thesis
      by (simp add: explicit_stamps_def explicit_run_def split: prod.splits)
  qed
qed





section \<open>Properties\<close>

subsection \<open>Load schedule\<close>

text \<open>
  Claim C4, amended.  The load schedule is a function of its arguments alone.  For a cutoff
  \<open>t_c > 0\<close> and \<open>t \<le> t_c\<close> it returns the double obtained by rounding the product
  \<open>\<sigma>_max \<sqdot> t\<close> and then the quotient by \<open>t_c\<close>; over the reals that is
  \<open>\<sigma>_max \<sqdot> t / t_c\<close>, and the double is within the relative error
  \<open>2\<^sup>-\<^sup>5\<^sup>2 + 2\<^sup>-\<^sup>1\<^sup>0\<^sup>6\<close> of it, so that at \<open>t = t_c\<close> it is within that relative error of
  \<open>\<sigma>_max\<close>.  For \<open>t > t_c\<close> it returns \<open>0\<close>.  The bound is that of doubles whose
  exponents stay in range, with neither overflow nor underflow.
\<close>

theorem load_eval_schedule:
  assumes "0 < valof t_c"
  shows "(valof t \<le> valof t_c \<longrightarrow>
            load_eval_double s_max t t_c = Inr (double_div (double_mul s_max t) t_c)
          \<and> load_eval (valof s_max) (valof t) (valof t_c)
              = Inr (valof s_max * valof t / valof t_c)
          \<and> \<bar>valof (double_div (double_mul s_max t) t_c) - valof s_max * valof t / valof t_c\<bar>
              \<le> \<bar>valof s_max * valof t / valof t_c\<bar> * (2 / 2 ^ 53 + 1 / 2 ^ 106))
       \<and> (valof t = valof t_c \<longrightarrow>
            load_eval (valof s_max) (valof t) (valof t_c) = Inr (valof s_max)
          \<and> \<bar>valof (double_div (double_mul s_max t) t_c) - valof s_max\<bar>
              \<le> \<bar>valof s_max\<bar> * (2 / 2 ^ 53 + 1 / 2 ^ 106))
       \<and> (valof t_c < valof t \<longrightarrow>
            load_eval_double s_max t t_c = Inr (Double 0 0)
          \<and> load_eval (valof s_max) (valof t) (valof t_c) = Inr 0
          \<and> valof (Double 0 0) = 0)"
proof -
  have nz: "valof t_c \<noteq> 0" using assms by simp
  have b: "\<bar>valof (double_div (double_mul s_max t) t_c) - valof s_max * valof t / valof t_c\<bar>
      \<le> \<bar>valof s_max * valof t / valof t_c\<bar> * (2 / 2 ^ 53 + 1 / 2 ^ 106)"
    using double_mul_error [of s_max t] double_div_error [OF nz, of "double_mul s_max t"] assms
    by (rule two_roundings)
  have "valof s_max * valof t / valof t_c = valof s_max" if "valof t = valof t_c"
    using that nz by simp
  with b have c: "valof t = valof t_c \<longrightarrow>
      \<bar>valof (double_div (double_mul s_max t) t_c) - valof s_max\<bar>
        \<le> \<bar>valof s_max\<bar> * (2 / 2 ^ 53 + 1 / 2 ^ 106)"
    by metis
  from b c show ?thesis
    using assms nz by (simp add: load_eval_double_def load_eval_def)
qed

text \<open>
  With \<open>\<sigma>_max = 3\<close> and \<open>t_c = 1\<close>: at \<open>t = 1/2\<close> the schedule returns \<open>3/2\<close>, at
  \<open>t = 2\<close> it returns \<open>0\<close>.
\<close>

theorem load_eval_schedule_witness:
  "0 < valof (Double 1 0)
   \<and> valof (Double 1 (- 1)) \<le> valof (Double 1 0)
   \<and> load_eval_double (Double 3 0) (Double 1 (- 1)) (Double 1 0)
       = Inr (double_div (double_mul (Double 3 0) (Double 1 (- 1))) (Double 1 0))
   \<and> double_div (double_mul (Double 3 0) (Double 1 (- 1))) (Double 1 0)
       = Double 6755399441055744 (- 52)
   \<and> valof (Double 6755399441055744 (- 52)) = 3 / 2
   \<and> load_eval (valof (Double 3 0)) (valof (Double 1 (- 1))) (valof (Double 1 0)) = Inr (3 / 2)
   \<and> valof (Double 1 0) < valof (Double 2 0)
   \<and> load_eval_double (Double 3 0) (Double 2 0) (Double 1 0) = Inr (Double 0 0)"
proof -
  have v: "valof (Double 1 0) = 1" "valof (Double 1 (- 1)) = 1 / 2" "valof (Double 2 0) = 2"
    "valof (Double 3 0) = 3"
    by (simp_all add: valof_def)
  have d: "double_div (double_mul (Double 3 0) (Double 1 (- 1))) (Double 1 0)
      = Double 6755399441055744 (- 52)"
    by code_simp
  have w: "valof (Double 6755399441055744 (- 52)) = 3 / 2"
    by code_simp
  show ?thesis
    using load_eval_schedule [where t_c = "Double 1 0" and t = "Double 1 (- 1)"
        and s_max = "Double 3 0"]
      load_eval_schedule [where t_c = "Double 1 0" and t = "Double 2 0" and s_max = "Double 3 0"]
    by (simp add: v d w)
qed

text \<open>
  The value at the cutoff is not always \<open>\<sigma>_max\<close>.  With the notebook's
  \<open>\<sigma>_max = 0.05\<close>, the double \<open>3602879701896397 \<sqdot> 2\<^sup>-\<^sup>5\<^sup>6\<close>, and \<open>t = t_c = 0.7\<close>, the
  double \<open>3152519739159347 \<sqdot> 2\<^sup>-\<^sup>5\<^sup>2\<close>, the schedule returns
  \<open>7205759403792793 \<sqdot> 2\<^sup>-\<^sup>5\<^sup>7\<close>, which Python prints as \<open>0.049999999999999996\<close> and which
  is \<open>2\<^sup>-\<^sup>5\<^sup>7\<close> below \<open>\<sigma>_max\<close>.
\<close>

theorem load_eval_cutoff_counterexample:
  "load_eval_double (Double 3602879701896397 (- 56)) (Double 3152519739159347 (- 52))
     (Double 3152519739159347 (- 52)) = Inr (Double 7205759403792793 (- 57))
   \<and> valof (Double 7205759403792793 (- 57)) \<noteq> valof (Double 3602879701896397 (- 56))
   \<and> valof (Double 3602879701896397 (- 56)) - valof (Double 7205759403792793 (- 57))
       = 1 / 2 ^ 57"
  by code_simp

subsection \<open>Boundary values\<close>

text \<open>
  Claim C3.  Starting from the zero state, after the corrector of every step of the
  explicit scheme, with the lumped or with the full mass matrix, and of the Newmark
  scheme, every constrained entry of the displacement holds its prescribed value, zero,
  and applying the boundary condition again leaves the displacement as it is.  The
  linear solve is assumed to return a vector of the space that carries the prescribed
  values, as \<open>LinearProblem\<close> with \<open>bcs=[bc]\<close> does.
\<close>

theorem boundary_values_kept:
  assumes solver: "\<forall>a L x. LinearProblem_solve F a L = Inr x \<longrightarrow> length x = ndofs F \<and> bc_holds F x"
  shows "(\<forall>(t, s) \<in> set (fst (explicit_run F P)).
            length (u_sol s) = ndofs F \<and> bc_holds F (u_sol s) \<and> set_bc F (u_sol s) = u_sol s)
       \<and> (\<forall>(t, s) \<in> set (fst (newmark_run F P gamma beta)).
            length (u_sol s) = ndofs F \<and> bc_holds F (u_sol s) \<and> set_bc F (u_sol s) = u_sol s)"
proof -
  have "\<And>s. clamped_state F s \<Longrightarrow>
        length (u_sol s) = ndofs F \<and> bc_holds F (u_sol s) \<and> set_bc F (u_sol s) = u_sol s"
    by (simp add: clamped_state_def set_bc_fixed)
  moreover have "\<forall>L x. LinearProblem_solve F (mass F P) L = Inr x \<longrightarrow>
      length x = ndofs F \<and> bc_holds F x"
    using solver by blast
  ultimately show ?thesis
    using explicit_run_clamped [of F P] newmark_run_clamped [OF solver] by blast
qed

theorem boundary_values_kept_witness:
  "map (u_sol \<circ> snd) (fst (explicit_run bar_consistent (bar_params True True 2)))
       = [[0, 0, 1, 0], [0, 0, 8 / 3, 0]]
   \<and> map (u_sol \<circ> snd) (fst (explicit_run bar_consistent (bar_params True False 2)))
       = [[0, 0, 3 / 2, 0], [0, 0, 3, 0]]
   \<and> map (u_sol \<circ> snd) (fst (newmark_run bar_consistent (bar_params True True 2) (1/2) (1/4)))
       = [[0, 0, 1 / 5, 0], [0, 0, 74 / 75, 0]]
   \<and> list_all (\<lambda>(t, s). length (u_sol s) = ndofs bar_consistent
         \<and> bc_holds bar_consistent (u_sol s) \<and> set_bc bar_consistent (u_sol s) = u_sol s)
       (fst (explicit_run bar_consistent (bar_params True True 2)))
   \<and> list_all (\<lambda>(t, s). length (u_sol s) = ndofs bar_consistent
         \<and> bc_holds bar_consistent (u_sol s) \<and> set_bc bar_consistent (u_sol s) = u_sol s)
       (fst (explicit_run bar_consistent (bar_params True False 2)))
   \<and> list_all (\<lambda>(t, s). length (u_sol s) = ndofs bar_consistent
         \<and> bc_holds bar_consistent (u_sol s) \<and> set_bc bar_consistent (u_sol s) = u_sol s)
       (fst (newmark_run bar_consistent (bar_params True True 2) (1/2) (1/4)))"
proof -
  have h: "\<forall>a L x. LinearProblem_solve bar_consistent a L = Inr x \<longrightarrow>
       length x = ndofs bar_consistent \<and> bc_holds bar_consistent x"
    unfolding bar_consistent_def by (rule bar_solver_bc)
  note k1 = boundary_values_kept [OF h, of "bar_params True True 2" "1/2" "1/4"]
  note k2 = boundary_values_kept [OF h, of "bar_params True False 2" "1/2" "1/4"]
  show ?thesis
    using k1 k2 by (simp add: run_lumped run_full run_newmark)
qed

subsection \<open>Lumped mass\<close>

text \<open>
  Claim C10.  The inverse lumped mass diagonal is the elementwise \<open>1/x\<close> of the row
  sums of the mass matrix, with no guard against a zero: a zero row sum reaches the
  division.  When every row sum is nonzero, every entry of the inverse is defined and is
  the inverse of its row sum, and the elementwise acceleration update of the lumped step
  returns for every state and step index.
\<close>

theorem lumped_inverse_total:
  "(\<forall>i<ndofs F. M_lumped_rows F P ! i = mass F P (ones (ndofs F)) (unit (ndofs F) i))
   \<and> (0 \<in> set (M_lumped_rows F P) \<longrightarrow> M_lumped_inv F P = Inl NonFinite)
   \<and> ((\<forall>x \<in> set (M_lumped_rows F P). x \<noteq> 0) \<longrightarrow>
        (\<exists>Minv. M_lumped_inv F P = Inr Minv \<and> length Minv = ndofs F
           \<and> (\<forall>i<ndofs F. Minv ! i = 1 / M_lumped_rows F P ! i
                 \<and> Minv ! i * M_lumped_rows F P ! i = 1)
           \<and> (\<forall>af. length af = ndofs F \<longrightarrow>
                 length (multiply Minv af) = ndofs F
                 \<and> (\<forall>i<ndofs F. multiply Minv af ! i = af ! i / M_lumped_rows F P ! i))
           \<and> (\<forall>dt s n sigma. use_lumped_mass P
                 \<and> load_eval (sigma_max P) (real (n + 1) * dt) (t_cutoff P) = Inr sigma \<longrightarrow>
                 (\<exists>s'. explicit_step F P dt s n = Inr s'
                    \<and> a_sol s' = set_bc F (multiply Minv (assemble_vector F (f_load F P (sigma, 0) s)))))))"
proof (intro conjI impI)
  show "\<forall>i<ndofs F. M_lumped_rows F P ! i = mass F P (ones (ndofs F)) (unit (ndofs F) i)"
    by (simp add: nth_M_lumped_rows)
next
  assume "0 \<in> set (M_lumped_rows F P)"
  then show "M_lumped_inv F P = Inl NonFinite" by (simp add: M_lumped_inv_def)
next
  assume nz: "\<forall>x \<in> set (M_lumped_rows F P). x \<noteq> 0"
  define Minv where "Minv = map (\<lambda>x. 1 / x) (M_lumped_rows F P)"
  have inv: "M_lumped_inv F P = Inr Minv"
    using nz by (auto simp: M_lumped_inv_def Minv_def)
  have len: "length Minv = ndofs F" by (simp add: Minv_def)
  have entry: "Minv ! i = 1 / M_lumped_rows F P ! i \<and> Minv ! i * M_lumped_rows F P ! i = 1"
    if "i < ndofs F" for i
  proof -
    have "M_lumped_rows F P ! i \<in> set (M_lumped_rows F P)" using that by simp
    with nz have "M_lumped_rows F P ! i \<noteq> 0" by blast
    then show ?thesis using that by (simp add: Minv_def)
  qed
  have mult: "length (multiply Minv af) = ndofs F
      \<and> (\<forall>i<ndofs F. multiply Minv af ! i = af ! i / M_lumped_rows F P ! i)"
    if "length af = ndofs F" for af
    using that len entry by (simp add: nth_multiply)
  have step: "\<exists>s'. explicit_step F P dt s n = Inr s'
        \<and> a_sol s' = set_bc F (multiply Minv (assemble_vector F (f_load F P (sigma, 0) s)))"
    if "use_lumped_mass P \<and> load_eval (sigma_max P) (real (n + 1) * dt) (t_cutoff P) = Inr sigma"
    for dt s n sigma
    using that inv by (simp add: explicit_step_def Let_def corrector_def)
  show "\<exists>Minv. M_lumped_inv F P = Inr Minv \<and> length Minv = ndofs F
           \<and> (\<forall>i<ndofs F. Minv ! i = 1 / M_lumped_rows F P ! i
                 \<and> Minv ! i * M_lumped_rows F P ! i = 1)
           \<and> (\<forall>af. length af = ndofs F \<longrightarrow>
                 length (multiply Minv af) = ndofs F
                 \<and> (\<forall>i<ndofs F. multiply Minv af ! i = af ! i / M_lumped_rows F P ! i))
           \<and> (\<forall>dt s n sigma. use_lumped_mass P
                 \<and> load_eval (sigma_max P) (real (n + 1) * dt) (t_cutoff P) = Inr sigma \<longrightarrow>
                 (\<exists>s'. explicit_step F P dt s n = Inr s'
                    \<and> a_sol s' = set_bc F (multiply Minv (assemble_vector F (f_load F P (sigma, 0) s)))))"
    using inv len entry mult step by blast
qed

theorem lumped_inverse_total_witness:
  "M_lumped_rows bar_consistent (bar_params True True 2) = [3, 3, 3, 3]
   \<and> M_lumped_inv bar_consistent (bar_params True True 2) = Inr [1 / 3, 1 / 3, 1 / 3, 1 / 3]
   \<and> explicit_step bar_consistent (bar_params True True 2) 1 (initial_state bar_consistent) 0
       = Inr \<lparr>u_sol = [0, 0, 1, 0], v_sol = [0, 0, 1, 0], a_sol = [0, 0, 1, 0]\<rparr>
   \<and> M_lumped_rows bar_massless (bar_params True True 2) = [0, 0, 0, 0]
   \<and> M_lumped_inv bar_massless (bar_params True True 2) = Inl NonFinite"
proof -
  note k1 = lumped_inverse_total [of bar_consistent "bar_params True True 2"]
  note k2 = lumped_inverse_total [of bar_massless "bar_params True True 2"]
  have "M_lumped_inv bar_massless (bar_params True True 2) = Inl NonFinite"
    using k2 by (simp add: rows_massless)
  moreover have "M_lumped_inv bar_consistent (bar_params True True 2) = Inr [1 / 3, 1 / 3, 1 / 3, 1 / 3]"
    using k1 by (simp add: bar_defs explicit_defs)
  moreover have "explicit_step bar_consistent (bar_params True True 2) 1 (initial_state bar_consistent) 0
       = Inr \<lparr>u_sol = [0, 0, 1, 0], v_sol = [0, 0, 1, 0], a_sol = [0, 0, 1, 0]\<rparr>"
    by (simp add: bar_defs explicit_defs)
  ultimately show ?thesis by (simp add: rows_consistent rows_massless)
qed

subsection \<open>Damping\<close>

text \<open>
  Claim C8, amended.  The damping form is \<open>\<eta>_m\<close> times the mass form plus \<open>\<eta>_k\<close>
  times the linear stiffness form, whatever \<open>use_linear_model\<close> is.  It equals the
  combination with the stiffness of the run exactly when the run is linear, or \<open>\<eta>_k\<close>
  is zero, or the nonlinear and the linear stiffness forms agree at the two arguments.
\<close>

theorem damping_uses_linear_stiffness:
  "damping F P w z = eta_m P * mass F P w z + eta_k P * stiffness_linear F w z
   \<and> damping F (P\<lparr>use_linear_model := b\<rparr>) w z = damping F P w z
   \<and> (damping F P w z = eta_m P * mass F P w z + eta_k P * stiffness F P w z
        \<longleftrightarrow> use_linear_model P \<or> eta_k P = 0
            \<or> stiffness_nonlinear F w z = stiffness_linear F w z)"
  by (auto simp: damping_def stiffness_def mass_def)

text \<open>
  With \<open>use_linear_model = False\<close> on the two-node bar, the damping form and the
  combination built with the stiffness of the run differ.
\<close>

theorem damping_nonlinear_counterexample:
  "damping bar_consistent (bar_params False True 2) [0, 0, 1, 0] [0, 0, 1, 0]
     \<noteq> eta_m (bar_params False True 2)
           * mass bar_consistent (bar_params False True 2) [0, 0, 1, 0] [0, 0, 1, 0]
         + eta_k (bar_params False True 2)
           * stiffness bar_consistent (bar_params False True 2) [0, 0, 1, 0] [0, 0, 1, 0]
   \<and> damping bar_consistent (bar_params False True 2) [0, 0, 1, 0] [0, 0, 1, 0] = 3
   \<and> stiffness bar_consistent (bar_params False True 2) [0, 0, 1, 0] [0, 0, 1, 0] = 2
   \<and> stiffness_linear bar_consistent [0, 0, 1, 0] [0, 0, 1, 0] = 1"
  by (simp add: bar_defs explicit_defs)

subsection \<open>The explicit step\<close>

text \<open>
  Claim C2, amended.  In the lumped scheme, for every state and step index, the net force
  is the load at \<open>t\<^bsub>n+1\<^esub>\<close> minus the stiffness response at \<open>u\<^sub>n\<close> minus the damping
  response at \<open>v\<^sub>n\<close>.  At every entry that is not constrained the new acceleration is
  the inverse lumped mass times that net force, the new velocity is the old one plus
  \<open>\<Delta>t\<close> times the new acceleration, and the new displacement is the old one plus
  \<open>\<Delta>t\<close> times the new velocity.  At the constrained entries the three fields are
  set to the prescribed value, zero, whatever the net force there.
\<close>

theorem explicit_step_lumped_entries:
  assumes "use_lumped_mass P"
    and "M_lumped_inv F P = Inr Minv"
    and "load_eval (sigma_max P) (real (n + 1) * dt) (t_cutoff P) = Inr sigma"
    and "length (u_sol s) = ndofs F" and "length (v_sol s) = ndofs F"
  shows "\<exists>s'. explicit_step F P dt s n = Inr s'
     \<and> length (u_sol s') = ndofs F \<and> length (v_sol s') = ndofs F \<and> length (a_sol s') = ndofs F
     \<and> (\<forall>i<ndofs F.
          if constrained F i
          then a_sol s' ! i = 0 \<and> v_sol s' ! i = 0 \<and> u_sol s' ! i = 0
          else a_sol s' ! i =
                 Minv ! i * (p_ext F (sigma, 0) (unit (ndofs F) i)
                             - stiffness F P (u_sol s) (unit (ndofs F) i)
                             - damping F P (v_sol s) (unit (ndofs F) i))
             \<and> v_sol s' ! i = v_sol s ! i + dt * a_sol s' ! i
             \<and> u_sol s' ! i = u_sol s ! i + dt * v_sol s' ! i)"
proof -
  define s0 where "s0 = \<lparr>u_sol = set_bc F (u_sol s), v_sol = set_bc F (v_sol s),
      a_sol = set_bc F (multiply Minv (assemble_vector F (f_load F P (sigma, 0) s)))\<rparr>"
  have step: "explicit_step F P dt s n = Inr (corrector dt s0)"
    using assms(1-3) by (simp add: explicit_step_def Let_def s0_def)
  have len: "length Minv = ndofs F" using assms(2) by (rule length_M_lumped_inv)
  have l0: "length (u_sol s0) = ndofs F" "length (v_sol s0) = ndofs F" "length (a_sol s0) = ndofs F"
    using assms(4,5) len by (simp_all add: s0_def)
  have entries: "if constrained F i
          then a_sol (corrector dt s0) ! i = 0 \<and> v_sol (corrector dt s0) ! i = 0
             \<and> u_sol (corrector dt s0) ! i = 0
          else a_sol (corrector dt s0) ! i =
                 Minv ! i * (p_ext F (sigma, 0) (unit (ndofs F) i)
                             - stiffness F P (u_sol s) (unit (ndofs F) i)
                             - damping F P (v_sol s) (unit (ndofs F) i))
             \<and> v_sol (corrector dt s0) ! i = v_sol s ! i + dt * a_sol (corrector dt s0) ! i
             \<and> u_sol (corrector dt s0) ! i = u_sol s ! i + dt * v_sol (corrector dt s0) ! i"
    if i: "i < ndofs F" for i
  proof -
    have a0: "a_sol s0 ! i = (if constrained F i then 0
        else Minv ! i * f_load F P (sigma, 0) s (unit (ndofs F) i))"
      using i len by (simp add: s0_def nth_set_bc nth_multiply nth_assemble_vector)
    have v0: "v_sol s0 ! i = (if constrained F i then 0 else v_sol s ! i)"
      using i assms(5) by (simp add: s0_def nth_set_bc)
    have u0: "u_sol s0 ! i = (if constrained F i then 0 else u_sol s ! i)"
      using i assms(4) by (simp add: s0_def nth_set_bc)
    have c: "a_sol (corrector dt s0) ! i = a_sol s0 ! i"
      "v_sol (corrector dt s0) ! i = v_sol s0 ! i + dt * a_sol s0 ! i"
      "u_sol (corrector dt s0) ! i = u_sol s0 ! i + dt * v_sol (corrector dt s0) ! i"
      using i l0 by (simp_all add: nth_corrector)
    show ?thesis
      by (simp add: c a0 v0 u0 f_load_def)
  qed
  show ?thesis
    using step l0 entries by simp
qed

theorem explicit_step_lumped_entries_witness:
  "use_lumped_mass (bar_params True True 2)
   \<and> M_lumped_inv bar_consistent (bar_params True True 2) = Inr [1 / 3, 1 / 3, 1 / 3, 1 / 3]
   \<and> load_eval (sigma_max (bar_params True True 2)) (real (1 + 1) * 1)
        (t_cutoff (bar_params True True 2)) = Inr 6
   \<and> length (u_sol bar_state1) = ndofs bar_consistent
   \<and> length (v_sol bar_state1) = ndofs bar_consistent
   \<and> (\<exists>s'. explicit_step bar_consistent (bar_params True True 2) 1 bar_state1 1 = Inr s'
        \<and> a_sol s' ! 0 = 0 \<and> a_sol s' ! 2 = 2 / 3
        \<and> v_sol s' ! 2 = v_sol bar_state1 ! 2 + 1 * a_sol s' ! 2
        \<and> u_sol s' ! 2 = u_sol bar_state1 ! 2 + 1 * v_sol s' ! 2)"
proof -
  have h1: "use_lumped_mass (bar_params True True 2)" by (simp add: bar_params_def)
  have h3: "load_eval (sigma_max (bar_params True True 2)) (real (1 + 1) * 1)
        (t_cutoff (bar_params True True 2)) = Inr 6"
    by (simp add: bar_params_def load_eval_def)
  have h4: "length (u_sol bar_state1) = ndofs bar_consistent"
    and h5: "length (v_sol bar_state1) = ndofs bar_consistent"
    by (simp_all add: bar_state1_def bar_consistent_def bar_def)
  have c: "\<exists>s'. explicit_step bar_consistent (bar_params True True 2) 1 bar_state1 1 = Inr s'
        \<and> a_sol s' ! 0 = 0 \<and> a_sol s' ! 2 = 2 / 3
        \<and> v_sol s' ! 2 = v_sol bar_state1 ! 2 + 1 * a_sol s' ! 2
        \<and> u_sol s' ! 2 = u_sol bar_state1 ! 2 + 1 * v_sol s' ! 2"
    by (intro exI conjI, rule step2_lumped) (simp_all add: bar_state1_def)
  note k = explicit_step_lumped_entries [OF h1 inv_consistent h3 h4 h5]
  show ?thesis
    using k h1 inv_consistent h3 h4 h5 c by blast
qed

text \<open>
  In the second step of the run of the two-node bar the product of the inverse lumped mass
  with the net force is \<open>1/3\<close> at the first clamped entry, and the acceleration the
  step stores there is \<open>0\<close>.
\<close>

theorem explicit_step_clamped_entry_counterexample:
  "explicit_run bar_consistent (bar_params True True 2)
     = ([(1, bar_state1),
         (2, \<lparr>u_sol = [0, 0, 8 / 3, 0], v_sol = [0, 0, 5 / 3, 0], a_sol = [0, 0, 2 / 3, 0]\<rparr>)],
        None)
   \<and> explicit_step bar_consistent (bar_params True True 2) 1 bar_state1 1
     = Inr \<lparr>u_sol = [0, 0, 8 / 3, 0], v_sol = [0, 0, 5 / 3, 0], a_sol = [0, 0, 2 / 3, 0]\<rparr>
   \<and> M_lumped_inv bar_consistent (bar_params True True 2) = Inr [1 / 3, 1 / 3, 1 / 3, 1 / 3]
   \<and> multiply [1 / 3, 1 / 3, 1 / 3, 1 / 3]
        (assemble_vector bar_consistent
           (f_load bar_consistent (bar_params True True 2) (6, 0) bar_state1))
     = [1 / 3, 0, 2 / 3, 0]
   \<and> [0, 0, 2 / 3, 0] \<noteq> [1 / 3, 0, 2 / 3, (0::real)]"
  by (simp add: run_lumped step2_lumped inv_consistent)
     (simp add: bar_state1_def bar_defs explicit_defs)

subsection \<open>Re-imposing the boundary condition\<close>

text \<open>
  Claim C6, amended.  In every step of the lumped variant, from any state, \<open>set_bc\<close>
  imposes the boundary condition on \<open>u\<^sub>n\<close>, \<open>v\<^sub>n\<close> and the new acceleration between the
  elementwise product and the corrector.  The full-mass variant imposes nothing: the
  corrector receives \<open>u\<^sub>n\<close> and \<open>v\<^sub>n\<close> as they are and the acceleration as the solve
  returns it.  When the solve returns vectors that carry the prescribed values, as
  \<open>LinearProblem\<close> with \<open>bcs=[bc]\<close> does, the three fields carry them all the same in
  every step of a run from the zero state.
\<close>

theorem explicit_step_bc_by_variant:
  assumes step: "explicit_step F P dt s n = Inr s'"
  shows "(use_lumped_mass P \<longrightarrow>
           (\<exists>sigma Minv.
               load_eval (sigma_max P) (real (n + 1) * dt) (t_cutoff P) = Inr sigma
             \<and> M_lumped_inv F P = Inr Minv
             \<and> s' = corrector dt
                  \<lparr>u_sol = set_bc F (u_sol s), v_sol = set_bc F (v_sol s),
                   a_sol = set_bc F (multiply Minv (assemble_vector F (f_load F P (sigma, 0) s)))\<rparr>))
       \<and> (\<not> use_lumped_mass P \<longrightarrow>
           (\<exists>sigma a.
               load_eval (sigma_max P) (real (n + 1) * dt) (t_cutoff P) = Inr sigma
             \<and> LinearProblem_solve F (mass F P) (f_load F P (sigma, 0) s) = Inr a
             \<and> s' = corrector dt \<lparr>u_sol = u_sol s, v_sol = v_sol s, a_sol = a\<rparr>
             \<and> ((\<forall>L x. LinearProblem_solve F (mass F P) L = Inr x \<longrightarrow>
                      length x = ndofs F \<and> bc_holds F x)
                  \<and> (s = initial_state F \<or> s \<in> snd ` set (fst (explicit_run F P))) \<longrightarrow>
                  set_bc F (u_sol s) = u_sol s \<and> set_bc F (v_sol s) = v_sol s
                  \<and> set_bc F a = a)))"
proof (intro conjI impI)
  assume "use_lumped_mass P"
  from explicit_step_lumped [OF this step]
  show "\<exists>sigma Minv.
               load_eval (sigma_max P) (real (n + 1) * dt) (t_cutoff P) = Inr sigma
             \<and> M_lumped_inv F P = Inr Minv
             \<and> s' = corrector dt
                  \<lparr>u_sol = set_bc F (u_sol s), v_sol = set_bc F (v_sol s),
                   a_sol = set_bc F (multiply Minv (assemble_vector F (f_load F P (sigma, 0) s)))\<rparr>"
    by blast
next
  assume full: "\<not> use_lumped_mass P"
  from explicit_step_full [OF full step] obtain sigma a where
    sigma: "load_eval (sigma_max P) (real (n + 1) * dt) (t_cutoff P) = Inr sigma" and
    a: "LinearProblem_solve F (mass F P) (f_load F P (sigma, 0) s) = Inr a" and
    s': "s' = corrector dt (s\<lparr>a_sol := a\<rparr>)"
    by blast
  have rec: "s\<lparr>a_sol := a\<rparr> = \<lparr>u_sol = u_sol s, v_sol = v_sol s, a_sol = a\<rparr>"
    by simp
  have fixed: "set_bc F (u_sol s) = u_sol s \<and> set_bc F (v_sol s) = v_sol s \<and> set_bc F a = a"
    if solver: "\<forall>L x. LinearProblem_solve F (mass F P) L = Inr x \<longrightarrow>
                      length x = ndofs F \<and> bc_holds F x"
      and reach: "s = initial_state F \<or> s \<in> snd ` set (fst (explicit_run F P))"
  proof -
    have "clamped_state F s"
    proof -
      from reach consider "s = initial_state F" | t where "(t, s) \<in> set (fst (explicit_run F P))"
        by force
      then show ?thesis
      proof cases
        case 1
        then show ?thesis by simp
      next
        case 2
        with solver show ?thesis by (rule explicit_run_clamped)
      qed
    qed
    then show ?thesis
      using solver [rule_format, OF a] by (simp add: clamped_state_def set_bc_fixed)
  qed
  show "\<exists>sigma a.
               load_eval (sigma_max P) (real (n + 1) * dt) (t_cutoff P) = Inr sigma
             \<and> LinearProblem_solve F (mass F P) (f_load F P (sigma, 0) s) = Inr a
             \<and> s' = corrector dt \<lparr>u_sol = u_sol s, v_sol = v_sol s, a_sol = a\<rparr>
             \<and> ((\<forall>L x. LinearProblem_solve F (mass F P) L = Inr x \<longrightarrow>
                      length x = ndofs F \<and> bc_holds F x)
                  \<and> (s = initial_state F \<or> s \<in> snd ` set (fst (explicit_run F P))) \<longrightarrow>
                  set_bc F (u_sol s) = u_sol s \<and> set_bc F (v_sol s) = v_sol s
                  \<and> set_bc F a = a)"
    using sigma a s' rec fixed by (intro exI [of _ sigma] exI [of _ a]) simp
qed

theorem explicit_step_bc_by_variant_witness:
  "use_lumped_mass (bar_params True True 2)
   \<and> explicit_step bar_consistent (bar_params True True 2) 1 bar_state_off 0
     = Inr \<lparr>u_sol = [0, 0, 2, 1], v_sol = [0, 0, 1, 0], a_sol = [0, 0, 0, -1]\<rparr>
   \<and> (\<exists>sigma Minv.
         M_lumped_inv bar_consistent (bar_params True True 2) = Inr Minv
       \<and> \<lparr>u_sol = [0, 0, 2, 1], v_sol = [0, 0, 1, 0], a_sol = [0, 0, 0, -1]\<rparr>
           = corrector 1
               \<lparr>u_sol = set_bc bar_consistent (u_sol bar_state_off),
                v_sol = set_bc bar_consistent (v_sol bar_state_off),
                a_sol = set_bc bar_consistent (multiply Minv (assemble_vector bar_consistent
                   (f_load bar_consistent (bar_params True True 2) (sigma, 0) bar_state_off)))\<rparr>)
   \<and> \<not> use_lumped_mass (bar_params True False 2)
   \<and> bar_state_full1 \<in> snd ` set (fst (explicit_run bar_consistent (bar_params True False 2)))
   \<and> explicit_step bar_consistent (bar_params True False 2) 1 bar_state_full1 1
     = Inr \<lparr>u_sol = [0, 0, 3, 0], v_sol = [0, 0, 3 / 2, 0], a_sol = [0, 0, 0, 0]\<rparr>
   \<and> (\<exists>sigma a.
         LinearProblem_solve bar_consistent (mass bar_consistent (bar_params True False 2))
            (f_load bar_consistent (bar_params True False 2) (sigma, 0) bar_state_full1) = Inr a
       \<and> \<lparr>u_sol = [0, 0, 3, 0], v_sol = [0, 0, 3 / 2, 0], a_sol = [0, 0, 0, 0]\<rparr>
           = corrector 1 \<lparr>u_sol = u_sol bar_state_full1, v_sol = v_sol bar_state_full1, a_sol = a\<rparr>
       \<and> set_bc bar_consistent (u_sol bar_state_full1) = u_sol bar_state_full1
       \<and> set_bc bar_consistent (v_sol bar_state_full1) = v_sol bar_state_full1
       \<and> set_bc bar_consistent a = a)"
proof -
  have solver: "\<forall>L x. LinearProblem_solve bar_consistent
        (mass bar_consistent (bar_params True False 2)) L = Inr x \<longrightarrow>
      length x = ndofs bar_consistent \<and> bc_holds bar_consistent x"
    using bar_solver_bc [of "[[2, 0, 1, 0], [0, 2, 0, 1], [1, 0, 2, 0], [0, 1, 0, 2]]"]
    unfolding bar_consistent_def by blast
  have r: "bar_state_full1 \<in> snd ` set (fst (explicit_run bar_consistent (bar_params True False 2)))"
    unfolding run_full_state1 by simp
  have l: "use_lumped_mass (bar_params True True 2)"
    and f: "\<not> use_lumped_mass (bar_params True False 2)"
    by (simp_all add: bar_params_def)
  note k1 = explicit_step_bc_by_variant [OF step_off_lumped, THEN conjunct1, rule_format, OF l]
  note k2 = explicit_step_bc_by_variant [OF step2_full, THEN conjunct2, rule_format, OF f]
  from k2 solver r have k2': "\<exists>sigma a.
         LinearProblem_solve bar_consistent (mass bar_consistent (bar_params True False 2))
            (f_load bar_consistent (bar_params True False 2) (sigma, 0) bar_state_full1) = Inr a
       \<and> \<lparr>u_sol = [0, 0, 3, 0], v_sol = [0, 0, 3 / 2, 0], a_sol = [0, 0, 0, 0]\<rparr>
           = corrector 1 \<lparr>u_sol = u_sol bar_state_full1, v_sol = v_sol bar_state_full1, a_sol = a\<rparr>
       \<and> set_bc bar_consistent (u_sol bar_state_full1) = u_sol bar_state_full1
       \<and> set_bc bar_consistent (v_sol bar_state_full1) = v_sol bar_state_full1
       \<and> set_bc bar_consistent a = a"
    by blast
  from k1 have k1': "\<exists>sigma Minv.
         M_lumped_inv bar_consistent (bar_params True True 2) = Inr Minv
       \<and> \<lparr>u_sol = [0, 0, 2, 1], v_sol = [0, 0, 1, 0], a_sol = [0, 0, 0, -1]\<rparr>
           = corrector 1
               \<lparr>u_sol = set_bc bar_consistent (u_sol bar_state_off),
                v_sol = set_bc bar_consistent (v_sol bar_state_off),
                a_sol = set_bc bar_consistent (multiply Minv (assemble_vector bar_consistent
                   (f_load bar_consistent (bar_params True True 2) (sigma, 0) bar_state_off)))\<rparr>"
    by blast
  show ?thesis
    using l f r step_off_lumped step2_full k1' k2' by blast
qed

text \<open>
  From a state whose clamped entries are not zero the full-mass step keeps them, while
  imposing the boundary condition before the corrector would have set them to zero.
\<close>

theorem full_mass_step_counterexample:
  "explicit_step bar_consistent (bar_params True False 2) 1 bar_state_off 0
     = Inr \<lparr>u_sol = [2, 2, 2, 1 / 2], v_sol = [1, 1, 1, - 1 / 2], a_sol = [0, 0, 0, - 3 / 2]\<rparr>
   \<and> LinearProblem_solve bar_consistent (mass bar_consistent (bar_params True False 2))
        (f_load bar_consistent (bar_params True False 2) (3, 0) bar_state_off)
     = Inr [0, 0, 0, - 3 / 2]
   \<and> corrector 1
        \<lparr>u_sol = set_bc bar_consistent (u_sol bar_state_off),
         v_sol = set_bc bar_consistent (v_sol bar_state_off),
         a_sol = set_bc bar_consistent [0, 0, 0, - 3 / 2]\<rparr>
     = \<lparr>u_sol = [0, 0, 2, 1 / 2], v_sol = [0, 0, 1, - 1 / 2], a_sol = [0, 0, 0, - 3 / 2]\<rparr>
   \<and> \<lparr>u_sol = [2, 2, 2, 1 / 2], v_sol = [1, 1, 1, - 1 / 2], a_sol = [0, 0, 0, - 3 / 2]\<rparr>
     \<noteq> \<lparr>u_sol = [0, 0, 2, 1 / 2], v_sol = [0, 0, 1, - 1 / 2], a_sol = [0, 0, 0, - 3 / 2 :: real]\<rparr>"
  by (simp add: step_off_full solve_off_full)
     (simp add: bar_state_off_def bar_defs explicit_defs)

subsection \<open>Lumped and full mass\<close>

text \<open>
  Claim C5, amended.  When the mass matrix is diagonal with nonzero entries, hence equal
  to its lumping, and every linear solve returns the solution of its constrained system,
  the explicit scheme with the full mass matrix and the one with the inverse lumped
  diagonal produce the same trajectory, for every step count.
\<close>

theorem lumped_full_agree_on_diagonal_mass:
  assumes diag: "\<forall>x i. length x = ndofs F \<and> i < ndofs F \<longrightarrow>
                    inner_dx F x (unit (ndofs F) i) = D i * x ! i"
    and nz: "\<forall>i<ndofs F. rho P * D i \<noteq> 0"
    and solver: "\<forall>L. \<exists>a. LinearProblem_solve F (mass F P) L = Inr a \<and> solves F (mass F P) L a"
  shows "explicit_run F (P\<lparr>use_lumped_mass := True\<rparr>)
       = explicit_run F (P\<lparr>use_lumped_mass := False\<rparr>)"
proof (cases "time_step P")
  case (Inl e)
  then show ?thesis by (simp add: explicit_run_def time_step_def split: if_splits)
next
  case (Inr dt)
  then show ?thesis
    using explicit_loop_variants_agree [OF diag nz solver clamped_state_initial]
    by (simp add: explicit_run_def time_step_def split: if_splits)
qed

theorem lumped_full_agree_on_diagonal_mass_witness:
  "explicit_run bar_lumped (bar_params True True 2) = explicit_run bar_lumped (bar_params True False 2)
   \<and> explicit_run bar_lumped (bar_params True False 2) =
      ([(1, \<lparr>u_sol = [0, 0, 1, 0], v_sol = [0, 0, 1, 0], a_sol = [0, 0, 1, 0]\<rparr>),
        (2, \<lparr>u_sol = [0, 0, 7 / 3, 0], v_sol = [0, 0, 4 / 3, 0], a_sol = [0, 0, 1 / 3, 0]\<rparr>)],
       None)"
proof -
  have nz: "\<forall>i<ndofs bar_lumped. rho (bar_params True True 2) * 3 \<noteq> 0"
    by (simp add: bar_params_def)
  note k = lumped_full_agree_on_diagonal_mass
    [of bar_lumped "\<lambda>i. 3" "bar_params True True 2", OF bar_lumped_diagonal nz bar_lumped_solver]
  then have "explicit_run bar_lumped (bar_params True True 2)
      = explicit_run bar_lumped (bar_params True False 2)"
    by (simp only: bar_params_flag)
  then show ?thesis by (simp add: run_lumped_diag)
qed

text \<open>
  With the consistent mass matrix of the two-node bar the first accelerations differ:
  \<open>3/2\<close> from the solve, which is the solution of the system, and \<open>1\<close> from the lumped
  diagonal, which is not.
\<close>

theorem lumped_full_differ_counterexample:
  "explicit_run bar_consistent (bar_params True True 2)
     \<noteq> explicit_run bar_consistent (bar_params True False 2)
   \<and> fst (explicit_run bar_consistent (bar_params True True 2)) ! 0
     = (1, \<lparr>u_sol = [0, 0, 1, 0], v_sol = [0, 0, 1, 0], a_sol = [0, 0, 1, 0]\<rparr>)
   \<and> fst (explicit_run bar_consistent (bar_params True False 2)) ! 0
     = (1, \<lparr>u_sol = [0, 0, 3 / 2, 0], v_sol = [0, 0, 3 / 2, 0], a_sol = [0, 0, 3 / 2, 0]\<rparr>)
   \<and> solves bar_consistent (mass bar_consistent (bar_params True False 2))
        (f_load bar_consistent (bar_params True False 2) (3, 0) (initial_state bar_consistent))
        [0, 0, 3 / 2, 0]
   \<and> \<not> solves bar_consistent (mass bar_consistent (bar_params True False 2))
        (f_load bar_consistent (bar_params True False 2) (3, 0) (initial_state bar_consistent))
        [0, 0, 1, 0]"
  by (simp add: run_lumped run_full)
     (simp add: solves_def initial_state_def bar_defs explicit_defs)

subsection \<open>Trivial equilibrium\<close>

text \<open>
  Claim C7.  With \<open>\<sigma>_max = 0\<close> and the zero initial state, the displacement is zero at
  every entry, which is the prescribed value at the constrained ones, after every step of
  the explicit scheme, and when no load evaluation divides by zero all \<open>num_steps\<close> steps
  are taken.  The forms are assumed to vanish at rest (the external load for a zero
  traction, the mass and both stiffness forms at the zero field), in the full-mass variant
  the solve of a zero right-hand side to return the zero vector, and in the lumped variant
  every row sum of the mass matrix to be nonzero: with a zero row sum the notebook
  multiplies \<open>inf\<close> by a zero force and stores \<open>nan\<close>, a value outside of this
  development.
\<close>

theorem trivial_equilibrium:
  assumes "sigma_max P = 0"
    and "\<forall>z. stiffness F P (zeros (ndofs F)) z = 0"
    and "\<forall>z. inner_dx F (zeros (ndofs F)) z = 0"
    and "\<forall>z. stiffness_linear F (zeros (ndofs F)) z = 0"
    and "\<forall>z. dot_ds2 F (0, 0) z = 0"
    and "\<not> use_lumped_mass P \<longrightarrow>
           LinearProblem_solve F (mass F P) (\<lambda>z. 0) = Inr (zeros (ndofs F))"
    and "use_lumped_mass P \<longrightarrow> 0 \<notin> set (M_lumped_rows F P)"
  shows "(\<forall>(t, s) \<in> set (fst (explicit_run F P)). u_sol s = zeros (ndofs F))
       \<and> (0 < num_steps P \<and> (t_cutoff P \<noteq> 0 \<or> 0 < t_end P) \<longrightarrow>
          snd (explicit_run F P) = None
          \<and> length (fst (explicit_run F P)) = nat (num_steps P))"
proof (cases "time_step P")
  case (Inl e)
  then show ?thesis by (auto simp: explicit_run_def time_step_def split: if_splits)
next
  case (Inr dt)
  have dt: "dt = t_end P / real_of_int (num_steps P)" and N: "num_steps P \<noteq> 0"
    using Inr by (auto simp: time_step_def split: if_splits)
  have rest: "s' = initial_state F"
    if "(t, s') \<in> set (fst (explicit_loop F P dt (initial_state F) ns))" for t s' ns
    using explicit_step_at_rest(1) [OF assms(1-6)] that by (rule explicit_loop_trace_at_rest)
  have complete: "snd (explicit_loop F P dt (initial_state F) ns) = None
       \<and> length (fst (explicit_loop F P dt (initial_state F) ns)) = length ns"
    if "t_cutoff P \<noteq> 0 \<or> 0 < dt" for ns
    using explicit_step_at_rest(2) [OF assms(1-6) that assms(7)]
    by (rule explicit_loop_complete_fixed)
  have run: "explicit_run F P = explicit_loop F P dt (initial_state F) [0..<nat (num_steps P)]"
    using Inr by (simp add: explicit_run_def)
  have "u_sol s' = zeros (ndofs F)" if "(t, s') \<in> set (fst (explicit_run F P))" for t s'
    using rest that unfolding run by (fastforce simp: initial_state_def)
  moreover have "snd (explicit_run F P) = None
      \<and> length (fst (explicit_run F P)) = nat (num_steps P)"
    if "0 < num_steps P" "t_cutoff P \<noteq> 0 \<or> 0 < t_end P"
  proof -
    from that have "t_cutoff P \<noteq> 0 \<or> 0 < dt" by (auto simp: dt)
    from complete [OF this, of "[0..<nat (num_steps P)]"] show ?thesis
      unfolding run by simp
  qed
  ultimately show ?thesis by blast
qed

theorem trivial_equilibrium_witness:
  "sigma_max (bar_unloaded False True 2) = 0
   \<and> M_lumped_rows bar_consistent (bar_unloaded False True 2) = [3, 3, 3, 3]
   \<and> list_all (\<lambda>(t, s). u_sol s = [0, 0, 0, 0])
        (fst (explicit_run bar_consistent (bar_unloaded False True 2)))
   \<and> snd (explicit_run bar_consistent (bar_unloaded False True 2)) = None
   \<and> length (fst (explicit_run bar_consistent (bar_unloaded False True 2))) = 2
   \<and> sigma_max (bar_unloaded True False 2) = 0
   \<and> list_all (\<lambda>(t, s). u_sol s = [0, 0, 0, 0])
        (fst (explicit_run bar_consistent (bar_unloaded True False 2)))
   \<and> snd (explicit_run bar_consistent (bar_unloaded True False 2)) = None
   \<and> length (fst (explicit_run bar_consistent (bar_unloaded True False 2))) = 2"
proof -
  have n: "ndofs bar_consistent = 4" by (simp add: bar_consistent_def bar_def)
  have s1: "\<not> use_lumped_mass (bar_unloaded False True 2) \<longrightarrow>
      LinearProblem_solve bar_consistent (mass bar_consistent (bar_unloaded False True 2)) (\<lambda>z. 0)
        = Inr (zeros (ndofs bar_consistent))"
    by simp
  have s2: "\<not> use_lumped_mass (bar_unloaded True False 2) \<longrightarrow>
      LinearProblem_solve bar_consistent (mass bar_consistent (bar_unloaded True False 2)) (\<lambda>z. 0)
        = Inr (zeros (ndofs bar_consistent))"
    unfolding bar_consistent_def using bar_solves_zero by blast
  have w1: "use_lumped_mass (bar_unloaded False True 2) \<longrightarrow>
      0 \<notin> set (M_lumped_rows bar_consistent (bar_unloaded False True 2))"
    by (simp add: rows_unloaded)
  have w2: "use_lumped_mass (bar_unloaded True False 2) \<longrightarrow>
      0 \<notin> set (M_lumped_rows bar_consistent (bar_unloaded True False 2))"
    by simp
  note k1 = trivial_equilibrium [of "bar_unloaded False True 2" bar_consistent,
      OF bar_unloaded_fields(1) _ _ _ _ s1 w1]
  note k2 = trivial_equilibrium [of "bar_unloaded True False 2" bar_consistent,
      OF bar_unloaded_fields(1) _ _ _ _ s2 w2]
  have r1: "(\<forall>(t, s)\<in>set (fst (explicit_run bar_consistent (bar_unloaded False True 2))).
        u_sol s = zeros (ndofs bar_consistent))
      \<and> (0 < num_steps (bar_unloaded False True 2)
          \<and> (t_cutoff (bar_unloaded False True 2) \<noteq> 0 \<or> 0 < t_end (bar_unloaded False True 2)) \<longrightarrow>
          snd (explicit_run bar_consistent (bar_unloaded False True 2)) = None
          \<and> length (fst (explicit_run bar_consistent (bar_unloaded False True 2)))
              = nat (num_steps (bar_unloaded False True 2)))"
    using bar_at_rest unfolding bar_consistent_def by (intro k1 [unfolded bar_consistent_def]) auto
  have r2: "(\<forall>(t, s)\<in>set (fst (explicit_run bar_consistent (bar_unloaded True False 2))).
        u_sol s = zeros (ndofs bar_consistent))
      \<and> (0 < num_steps (bar_unloaded True False 2)
          \<and> (t_cutoff (bar_unloaded True False 2) \<noteq> 0 \<or> 0 < t_end (bar_unloaded True False 2)) \<longrightarrow>
          snd (explicit_run bar_consistent (bar_unloaded True False 2)) = None
          \<and> length (fst (explicit_run bar_consistent (bar_unloaded True False 2)))
              = nat (num_steps (bar_unloaded True False 2)))"
    using bar_at_rest unfolding bar_consistent_def by (intro k2 [unfolded bar_consistent_def]) auto
  from r1 r2 show ?thesis
    by (simp add: n zeros4 rows_unloaded list_all_iff)
qed

subsection \<open>Fixed horizon\<close>




subsection \<open>Newmark consistency\<close>

text \<open>
  Claim C1.  Let the mass and stiffness forms be linear in their first argument.  For
  every state \<open>(u\<^sub>n, v\<^sub>n, a\<^sub>n)\<close>, all \<open>\<gamma>\<close>, \<open>\<beta>\<close>, \<open>\<Delta>t\<close> and every load, if the
  acceleration \<open>a\<^bsub>n+1\<^esub>\<close> satisfies the effective system
  \<open>(M + \<gamma>\<Delta>t C + \<beta>\<Delta>t\<^sup>2 K) a\<^bsub>n+1\<^esub> = F - K u_hat - C v_hat\<close> against a test vector, with the
  predictors \<open>u_hat = u\<^sub>n + \<Delta>t v\<^sub>n + (\<Delta>t\<^sup>2/2)(1 - 2\<beta>) a\<^sub>n\<close> and
  \<open>v_hat = v\<^sub>n + \<Delta>t (1 - \<gamma>) a\<^sub>n\<close>, then the corrected
  \<open>u\<^bsub>n+1\<^esub> = u_hat + \<beta>\<Delta>t\<^sup>2 a\<^bsub>n+1\<^esub>\<close> and \<open>v\<^bsub>n+1\<^esub> = v_hat + \<gamma>\<Delta>t a\<^bsub>n+1\<^esub>\<close> satisfy the
  equation of motion \<open>M a\<^bsub>n+1\<^esub> + C v\<^bsub>n+1\<^esub> + K u\<^bsub>n+1\<^esub> = F\<close> against the same test
  vector.
\<close>

theorem newmark_consistency:
  assumes linK: "\<forall>c x y. length x = ndofs F \<and> length y = ndofs F \<longrightarrow>
        stiffness_linear F (axpy c x y) z = stiffness_linear F y z + c * stiffness_linear F x z"
    and linM: "\<forall>c x y. length x = ndofs F \<and> length y = ndofs F \<longrightarrow>
        inner_dx F (axpy c x y) z = inner_dx F y z + c * inner_dx F x z"
    and len: "length (u_sol s) = ndofs F" "length (v_sol s) = ndofs F"
        "length (a_sol s) = ndofs F" "length acc = ndofs F"
    and eff: "A_newmark F P gamma beta dt acc z
                = f_load_newmark F P traction (predictor gamma beta dt s) z"
  shows "mass F P acc z
         + damping F P (v_sol (corrector_newmark gamma beta dt
                                 ((predictor gamma beta dt s)\<lparr>a_sol := acc\<rparr>))) z
         + stiffness_linear F (u_sol (corrector_newmark gamma beta dt
                                 ((predictor gamma beta dt s)\<lparr>a_sol := acc\<rparr>))) z
         = p_ext F traction z
       \<and> (\<forall>i<ndofs F.
            u_sol (predictor gamma beta dt s) ! i
              = u_sol s ! i + dt * v_sol s ! i + dt\<^sup>2 / 2 * (1 - 2 * beta) * a_sol s ! i
          \<and> v_sol (predictor gamma beta dt s) ! i
              = v_sol s ! i + dt * (1 - gamma) * a_sol s ! i
          \<and> u_sol (corrector_newmark gamma beta dt ((predictor gamma beta dt s)\<lparr>a_sol := acc\<rparr>)) ! i
              = u_sol (predictor gamma beta dt s) ! i + beta * dt\<^sup>2 * acc ! i
          \<and> v_sol (corrector_newmark gamma beta dt ((predictor gamma beta dt s)\<lparr>a_sol := acc\<rparr>)) ! i
              = v_sol (predictor gamma beta dt s) ! i + gamma * dt * acc ! i)"
proof -
  define u_hat where "u_hat = u_sol (predictor gamma beta dt s)"
  define v_hat where "v_hat = v_sol (predictor gamma beta dt s)"
  have lh: "length u_hat = ndofs F" "length v_hat = ndofs F"
    using len by (simp_all add: u_hat_def v_hat_def predictor_def)
  have u': "u_sol (corrector_newmark gamma beta dt ((predictor gamma beta dt s)\<lparr>a_sol := acc\<rparr>))
      = axpy (beta * dt\<^sup>2) acc u_hat"
    and v': "v_sol (corrector_newmark gamma beta dt ((predictor gamma beta dt s)\<lparr>a_sol := acc\<rparr>))
      = axpy (gamma * dt) acc v_hat"
    by (simp_all add: corrector_newmark_def u_hat_def v_hat_def)
  have K: "stiffness_linear F (axpy (beta * dt\<^sup>2) acc u_hat) z
      = stiffness_linear F u_hat z + beta * dt\<^sup>2 * stiffness_linear F acc z"
    using linK len(4) lh(1) by blast
  have C: "damping F P (axpy (gamma * dt) acc v_hat) z
      = damping F P v_hat z + gamma * dt * damping F P acc z"
    using linK linM len(4) lh(2) by (intro damping_axpy) blast+
  have E: "mass F P acc z + gamma * dt * damping F P acc z + beta * dt\<^sup>2 * stiffness_linear F acc z
      = p_ext F traction z - stiffness_linear F u_hat z - damping F P v_hat z"
    using eff by (simp add: A_newmark_def f_load_newmark_def u_hat_def v_hat_def)
  have motion: "mass F P acc z + damping F P (axpy (gamma * dt) acc v_hat) z
      + stiffness_linear F (axpy (beta * dt\<^sup>2) acc u_hat) z = p_ext F traction z"
    unfolding K C using E by simp
  have entries: "u_hat ! i = u_sol s ! i + dt * v_sol s ! i + dt\<^sup>2 / 2 * (1 - 2 * beta) * a_sol s ! i
      \<and> v_hat ! i = v_sol s ! i + dt * (1 - gamma) * a_sol s ! i
      \<and> axpy (beta * dt\<^sup>2) acc u_hat ! i = u_hat ! i + beta * dt\<^sup>2 * acc ! i
      \<and> axpy (gamma * dt) acc v_hat ! i = v_hat ! i + gamma * dt * acc ! i"
    if "i < ndofs F" for i
    using that len lh
    by (simp add: nth_axpy) (simp add: u_hat_def v_hat_def predictor_def nth_axpy)
  show ?thesis
    unfolding u' v' using motion entries by (simp add: u_hat_def v_hat_def)
qed

theorem newmark_consistency_witness:
  "A_newmark bar_consistent (bar_params True True 2) (1/2) (1/4) 1 [0, 0, 56 / 75, 0] [0, 0, 1, 0]
     = f_load_newmark bar_consistent (bar_params True True 2) (6, 0)
         (predictor (1/2) (1/4) 1 bar_newmark1) [0, 0, 1, 0]
   \<and> corrector_newmark (1/2) (1/4) 1 ((predictor (1/2) (1/4) 1 bar_newmark1)\<lparr>a_sol := [0, 0, 56 / 75, 0]\<rparr>)
     = \<lparr>u_sol = [0, 0, 74 / 75, 0], v_sol = [0, 0, 88 / 75, 0], a_sol = [0, 0, 56 / 75, 0]\<rparr>
   \<and> mass bar_consistent (bar_params True True 2) [0, 0, 56 / 75, 0] [0, 0, 1, 0]
     + damping bar_consistent (bar_params True True 2) [0, 0, 88 / 75, 0] [0, 0, 1, 0]
     + stiffness_linear bar_consistent [0, 0, 74 / 75, 0] [0, 0, 1, 0]
     = p_ext bar_consistent (6, 0) [0, 0, 1, 0]
   \<and> p_ext bar_consistent (6, 0) [0, 0, 1, 0] = 6"
proof -
  have linK: "\<forall>c x y. length x = ndofs bar_consistent \<and> length y = ndofs bar_consistent \<longrightarrow>
        stiffness_linear bar_consistent (axpy c x y) [0, 0, 1, 0]
          = stiffness_linear bar_consistent y [0, 0, 1, 0]
            + c * stiffness_linear bar_consistent x [0, 0, 1, 0]"
    by (simp add: bar_consistent_def bar_def matrix_form_axpy)
  have linM: "\<forall>c x y. length x = ndofs bar_consistent \<and> length y = ndofs bar_consistent \<longrightarrow>
        inner_dx bar_consistent (axpy c x y) [0, 0, 1, 0]
          = inner_dx bar_consistent y [0, 0, 1, 0] + c * inner_dx bar_consistent x [0, 0, 1, 0]"
    by (simp add: bar_consistent_def bar_def matrix_form_axpy)
  have len: "length (u_sol bar_newmark1) = ndofs bar_consistent"
    "length (v_sol bar_newmark1) = ndofs bar_consistent"
    "length (a_sol bar_newmark1) = ndofs bar_consistent"
    "length [0, 0, 56 / 75, 0::real] = ndofs bar_consistent"
    by (simp_all add: bar_newmark1_def bar_consistent_def bar_def)
  have c: "corrector_newmark (1/2) (1/4) 1
      ((predictor (1/2) (1/4) 1 bar_newmark1)\<lparr>a_sol := [0, 0, 56 / 75, 0]\<rparr>)
     = \<lparr>u_sol = [0, 0, 74 / 75, 0], v_sol = [0, 0, 88 / 75, 0], a_sol = [0, 0, 56 / 75, 0]\<rparr>"
    by (simp add: bar_newmark1_def corrector_newmark_def predictor_def axpy_def power2_eq_square)
  have p: "p_ext bar_consistent (6, 0) [0, 0, 1, 0] = 6"
    by (simp add: p_ext_def bar_defs)
  note k = newmark_consistency [OF linK linM len newmark_effective2, THEN conjunct1]
  show ?thesis
    using k newmark_effective2 p unfolding c by simp
qed

end
